theory Spec2Isabelle
  imports Complex_Main "HOL-Library.Product_Lexorder"
begin

section \<open>Kwik store items: features, masks and waveforms per cluster\<close>

text \<open>
  A shallow embedding of \<^verbatim>\<open>phy/io/kwik/store_items.py\<close>. Cluster ids and spike
  (record) indices are natural numbers, field names are strings. Every exception the
  Python code can raise is a value of \<open>error\<close>, returned as \<open>Inl\<close>.
\<close>

datatype error =
    AssertionError
  | ValueError
  | KeyError
  | IndexError
  | ZeroDivisionError
  | MissingDependencyError
  | ShapeMismatchError

subsection \<open>File sizes as seen through \<^verbatim>\<open>op.exists\<close> and \<^verbatim>\<open>os.stat\<close>\<close>

text \<open>
  \<open>is_consistent\<close> reads the file system only through \<^verbatim>\<open>op.exists(path)\<close> and
  \<^verbatim>\<open>os.stat(path).st_size\<close>, where \<^verbatim>\<open>path = _cluster_path(cluster, name)\<close>. The
  file system is therefore a function from cluster id and field name to the size in bytes
  of the file, \<open>None\<close> when there is no such file.
\<close>

type_synonym file_sizes = "nat \<Rightarrow> string \<Rightarrow> nat option"

subsection \<open>\<^verbatim>\<open>FeatureMasks.is_consistent\<close>\<close>

definition expected_file_sizes :: "nat \<Rightarrow> nat \<Rightarrow> nat list \<Rightarrow> (string \<times> nat) list" where
  "expected_file_sizes n_channels n_features spikes =
     (let cluster_size = length spikes
      in [(''masks'', cluster_size * n_channels * 4),
          (''features'', cluster_size * n_channels * n_features * 4)])"

text \<open>The \<^verbatim>\<open>for name, expected_file_size in expected_file_sizes\<close> loop with its two
  early returns.\<close>

fun check_file_sizes :: "(string \<Rightarrow> nat option) \<Rightarrow> (string \<times> nat) list \<Rightarrow> bool" where
  "check_file_sizes st [] = True"
| "check_file_sizes st ((name, expected_file_size) # rest) =
     (case st name of
        None \<Rightarrow> False
      | Some actual_file_size \<Rightarrow>
          if expected_file_size \<noteq> actual_file_size then False
          else check_file_sizes st rest)"

definition is_consistent :: "nat \<Rightarrow> nat \<Rightarrow> file_sizes \<Rightarrow> nat \<Rightarrow> nat list \<Rightarrow> bool" where
  "is_consistent n_channels n_features fs cluster spikes =
     check_file_sizes (fs cluster) (expected_file_sizes n_channels n_features spikes)"

subsection \<open>\<^verbatim>\<open>Waveforms.is_consistent\<close>\<close>

text \<open>
  The floor division \<^verbatim>\<open>//\<close> raises \<^verbatim>\<open>ZeroDivisionError\<close> when
  \<^verbatim>\<open>n_channels * n_samples * 4\<close> is zero. The argument \<^verbatim>\<open>spikes\<close> is not used by
  the body.
\<close>

definition waveforms_is_consistent ::
  "nat \<Rightarrow> nat \<Rightarrow> file_sizes \<Rightarrow> nat \<Rightarrow> nat list \<Rightarrow> error + bool" where
  "waveforms_is_consistent n_channels n_samples fs cluster spikes =
     (case fs cluster ''waveforms'' of
        None \<Rightarrow> Inr False
      | Some file_size_w \<Rightarrow>
         (case fs cluster ''waveforms_spikes'' of
            None \<Rightarrow> Inr False
          | Some file_size_s \<Rightarrow>
              if n_channels * n_samples * 4 = 0 then Inl ZeroDivisionError
              else
                (let n_spikes_s = file_size_s div 8;
                     n_spikes_w = file_size_w div (n_channels * n_samples * 4)
                 in if n_spikes_s \<noteq> n_spikes_w then Inr False else Inr True)))"

subsection \<open>Array elements\<close>

text \<open>
  The arrays hold IEEE floating-point numbers. Rounding is abstracted: a finite float is
  the real number it stands for, and the three special values are kept, because the
  statistics divide by a record count that can be zero. numpy does not raise on a
  floating-point division by zero; the quotient is an infinity or NaN.
\<close>

datatype fval = Fin real | PInf | NInf | NaN

fun fadd :: "fval \<Rightarrow> fval \<Rightarrow> fval" where
  "fadd NaN y = NaN"
| "fadd x NaN = NaN"
| "fadd (Fin a) (Fin b) = Fin (a + b)"
| "fadd PInf NInf = NaN"
| "fadd NInf PInf = NaN"
| "fadd PInf y = PInf"
| "fadd x PInf = PInf"
| "fadd NInf y = NInf"
| "fadd x NInf = NInf"

definition inf_times :: "bool \<Rightarrow> real \<Rightarrow> fval" where
  "inf_times positive a =
     (if a = 0 then NaN else if (0 < a) = positive then PInf else NInf)"

fun fmul :: "fval \<Rightarrow> fval \<Rightarrow> fval" where
  "fmul NaN y = NaN"
| "fmul x NaN = NaN"
| "fmul (Fin a) (Fin b) = Fin (a * b)"
| "fmul (Fin a) PInf = inf_times True a"
| "fmul (Fin a) NInf = inf_times False a"
| "fmul PInf (Fin b) = inf_times True b"
| "fmul NInf (Fin b) = inf_times False b"
| "fmul PInf PInf = PInf"
| "fmul NInf NInf = PInf"
| "fmul PInf NInf = NInf"
| "fmul NInf PInf = NInf"

text \<open>Division of an array element by \<^verbatim>\<open>float(n)\<close> for a count \<open>n\<close>.\<close>

fun fdiv_count :: "fval \<Rightarrow> nat \<Rightarrow> fval" where
  "fdiv_count NaN n = NaN"
| "fdiv_count PInf n = PInf"
| "fdiv_count NInf n = NInf"
| "fdiv_count (Fin a) n =
     (if n = 0 then (if a = 0 then NaN else if 0 < a then PInf else NInf)
      else Fin (a / real n))"

text \<open>The comparison \<^verbatim>\<open>x > t\<close> with a finite constant \<open>t\<close>; false for NaN.\<close>

fun fgt :: "fval \<Rightarrow> real \<Rightarrow> bool" where
  "fgt (Fin a) t = (t < a)"
| "fgt PInf t = True"
| "fgt NInf t = False"
| "fgt NaN t = False"

text \<open>The comparison \<^verbatim>\<open>x >= y\<close> of two elements; false when one of them is NaN.\<close>

fun fge :: "fval \<Rightarrow> fval \<Rightarrow> bool" where
  "fge NaN y = False"
| "fge x NaN = False"
| "fge PInf y = True"
| "fge x NInf = True"
| "fge NInf y = False"
| "fge x PInf = False"
| "fge (Fin a) (Fin b) = (b \<le> a)"

subsection \<open>numpy operations used by the statistics\<close>

text \<open>
  A two-dimensional array is the list of its rows; every row of an array of shape
  \<open>(n, k)\<close> has \<open>k\<close> elements. \<^verbatim>\<open>a.sum(axis=0)\<close> adds up each column (an empty
  column sums to \<open>0\<close>), \<^verbatim>\<open>a.mean(axis=0)\<close> divides the column sums by the number of rows.
\<close>

definition sum_axis0 :: "nat \<Rightarrow> fval list list \<Rightarrow> fval list" where
  "sum_axis0 ncols rows = map (\<lambda>j. foldl fadd (Fin 0) (map (\<lambda>r. r ! j) rows)) [0..<ncols]"

definition mean_axis0 :: "nat \<Rightarrow> fval list list \<Rightarrow> fval list" where
  "mean_axis0 ncols rows = map (\<lambda>s. fdiv_count s (length rows)) (sum_axis0 ncols rows)"

text \<open>
  \<^verbatim>\<open>np.argsort\<close> orders the indices of a one-dimensional array by ascending value, NaN
  last. It is modelled as a stable sort; numpy's default sort leaves the order of equal
  values open, and nothing proved below depends on it.
\<close>

fun sort_rank :: "fval \<Rightarrow> nat \<times> real" where
  "sort_rank NInf = (0, 0)"
| "sort_rank (Fin a) = (1, a)"
| "sort_rank PInf = (2, 0)"
| "sort_rank NaN = (3, 0)"

definition argsort :: "fval list \<Rightarrow> nat list" where
  "argsort xs = sort_key (\<lambda>i. sort_rank (xs ! i)) [0..<length xs]"

text \<open>\<^verbatim>\<open>np.nonzero(xs > t)[0]\<close>: the indices whose element exceeds \<open>t\<close>, ascending.\<close>

definition nonzero_gt :: "fval list \<Rightarrow> real \<Rightarrow> nat list" where
  "nonzero_gt xs t = filter (\<lambda>c. fgt (xs ! c) t) [0..<length xs]"

text \<open>
  \<^verbatim>\<open>positions * mean_masks[:, np.newaxis]\<close>: an array of shape \<open>(p, d)\<close> times one of
  shape \<open>(c, 1)\<close>. Broadcasting needs \<open>p = c\<close>, or one of the two to be \<open>1\<close>, and raises
  \<^verbatim>\<open>ValueError\<close> otherwise.
\<close>

definition broadcast_mul :: "fval list list \<Rightarrow> fval list \<Rightarrow> error + fval list list" where
  "broadcast_mul positions mean_masks =
     (if length positions = length mean_masks
      then Inr (map (\<lambda>(row, m). map (\<lambda>x. fmul x m) row) (zip positions mean_masks))
      else if length mean_masks = 1
      then Inr (map (\<lambda>row. map (\<lambda>x. fmul x (hd mean_masks)) row) positions)
      else if length positions = 1
      then Inr (map (\<lambda>m. map (\<lambda>x. fmul x m) (hd positions)) mean_masks)
      else Inl ValueError)"

subsection \<open>The extra fields of \<^verbatim>\<open>FeatureMasks._store_extra_fields\<close>\<close>

text \<open>
  The statistics of one cluster, in the order of the source, from the loaded \<^verbatim>\<open>masks\<close>
  array of shape \<open>(n, n_channels)\<close>.
\<close>

definition sum_masks_of :: "nat \<Rightarrow> fval list list \<Rightarrow> fval list" where
  "sum_masks_of n_channels masks = sum_axis0 n_channels masks"

definition mean_masks_of :: "nat \<Rightarrow> fval list list \<Rightarrow> fval list" where
  "mean_masks_of n_channels masks =
     map (\<lambda>s. fdiv_count s (length masks)) (sum_masks_of n_channels masks)"

definition unmasked_channels_of :: "fval list \<Rightarrow> nat list" where
  "unmasked_channels_of mean_masks = nonzero_gt mean_masks (1 / 10)"

definition n_unmasked_channels_of :: "fval list \<Rightarrow> nat" where
  "n_unmasked_channels_of mean_masks = length (unmasked_channels_of mean_masks)"

definition mean_probe_position_of ::
  "fval list list \<Rightarrow> nat \<Rightarrow> fval list \<Rightarrow> error + fval list" where
  "mean_probe_position_of positions n_dims mean_masks =
     (case broadcast_mul positions mean_masks of
        Inl e \<Rightarrow> Inl e
      | Inr weighted \<Rightarrow> Inr (mean_axis0 n_dims weighted))"

definition main_channels_of :: "fval list \<Rightarrow> nat list" where
  "main_channels_of mean_masks =
     (let main_channels = rev (argsort mean_masks)
      in filter (\<lambda>c. c \<in> set (unmasked_channels_of mean_masks)) main_channels)"

subsection \<open>Helpers for code that can raise\<close>

text \<open>A loop that builds a list and stops at the first exception.\<close>

fun map_err :: "('a \<Rightarrow> error + 'b) \<Rightarrow> 'a list \<Rightarrow> error + 'b list" where
  "map_err f [] = Inr []"
| "map_err f (x # xs) =
     (case f x of
        Inl e \<Rightarrow> Inl e
      | Inr y \<Rightarrow> (case map_err f xs of Inl e \<Rightarrow> Inl e | Inr ys \<Rightarrow> Inr (y # ys)))"

text \<open>\<^verbatim>\<open>a[idx]\<close> with an array of indices: the rows at these positions, \<^verbatim>\<open>IndexError\<close>
  when a position is out of range.\<close>

definition fancy_index :: "'a list \<Rightarrow> nat list \<Rightarrow> error + 'a list" where
  "fancy_index a idx = map_err (\<lambda>i. if i < length a then Inr (a ! i) else Inl IndexError) idx"

text \<open>\<^verbatim>\<open>a[lo:hi]\<close> for \<open>0 \<le> lo \<le> hi\<close>.\<close>

definition slice :: "nat \<Rightarrow> nat \<Rightarrow> 'a list \<Rightarrow> 'a list" where
  "slice lo hi xs = take (hi - lo) (drop lo xs)"

text \<open>\<^verbatim>\<open>a[::n]\<close> for a positive step \<open>n\<close>: the elements at positions \<open>0, n, 2n, \<dots>\<close>.\<close>

definition every_nth :: "nat \<Rightarrow> 'a list \<Rightarrow> 'a list" where
  "every_nth n xs = map (\<lambda>i. xs ! (i * n)) [0..<(length xs + n - 1) div n]"

subsection \<open>Array helpers of \<^verbatim>\<open>phy.utils.array\<close>\<close>

text \<open>
  Modelled from the spec: \<^verbatim>\<open>_index_of(arr, lookup)\<close> is imported from
  \<^verbatim>\<open>phy/utils/array.py\<close>, which is not among the sources. The spec has it "locate those
  records' positions within the old cluster's stored order": each element of \<open>arr\<close> is
  replaced by its position in \<open>lookup\<close>. The spec does not say what happens to an element
  that is not in \<open>lookup\<close>; the model raises. Both callers pass a sub-list of \<open>lookup\<close>.
\<close>

fun position_of :: "nat \<Rightarrow> nat list \<Rightarrow> nat option" where
  "position_of x [] = None"
| "position_of x (y # ys) = (if x = y then Some 0 else map_option Suc (position_of x ys))"

definition index_of :: "nat list \<Rightarrow> nat list \<Rightarrow> error + nat list" where
  "index_of arr lookup =
     map_err (\<lambda>x. case position_of x lookup of None \<Rightarrow> Inl IndexError | Some i \<Rightarrow> Inr i) arr"

text \<open>
  Modelled from the spec: \<^verbatim>\<open>_spikes_per_cluster(spike_ids, spike_clusters)\<close> is
  imported from \<^verbatim>\<open>phy/utils/array.py\<close>, which is not among the sources. The spec has it
  "partition chunk record indices by cluster id": a dictionary from every cluster id that
  occurs to the record indices assigned to it, in the order of \<open>spike_ids\<close>. A record
  index without an assignment (the last chunk can be shorter than its index range) belongs
  to no cluster. The dictionary is an association list with one entry per key.
\<close>

definition spikes_per_cluster :: "nat list \<Rightarrow> nat list \<Rightarrow> (nat \<times> nat list) list" where
  "spikes_per_cluster spike_ids spike_clusters =
     (let pairs = zip spike_ids spike_clusters
      in map (\<lambda>c. (c, map fst (filter (\<lambda>p. snd p = c) pairs))) (remdups (map snd pairs)))"

text \<open>
  Modelled from the spec: \<^verbatim>\<open>_concatenate_per_cluster_arrays(spikes_per_cluster, arrays)\<close>
  is imported from \<^verbatim>\<open>phy/utils/array.py\<close>, which is not among the sources. The spec has
  it "concatenate them into one array whose record order follows the canonical ascending
  order of the union of old clusters' record-index sets (a stable per-record-index sort
  across the contributing old arrays, not simple array concatenation)": every row of every
  array in \<open>arrays\<close> is paired with the record index at the same position of that cluster's
  entry in \<open>spikes_per_cluster\<close>, the pairs of all clusters are put one after the other (in
  ascending order of cluster id) and sorted by record index with a stable sort. The spec does
  not say what happens when a cluster of \<open>arrays\<close> has no entry in \<open>spikes_per_cluster\<close> or
  an entry of another length; the model raises.
\<close>

definition concatenate_per_cluster_arrays ::
  "(nat \<Rightarrow> nat list option) \<Rightarrow> (nat \<times> 'a list) list \<Rightarrow> error + 'a list" where
  "concatenate_per_cluster_arrays spc arrays =
     (let clusters = sorted_list_of_set (set (map fst arrays))
      in case map_err
           (\<lambda>cluster.
              case spc cluster of
                None \<Rightarrow> Inl KeyError
              | Some spikes \<Rightarrow>
                 (case map_of arrays cluster of
                    None \<Rightarrow> Inl KeyError
                  | Some rows \<Rightarrow>
                      if length spikes \<noteq> length rows then Inl AssertionError
                      else Inr (zip spikes rows)))
           clusters of
        Inl e \<Rightarrow> Inl e
      | Inr tagged \<Rightarrow> Inr (map snd (sort_key fst (concat tagged))))"

subsection \<open>Disk and memory layers\<close>

text \<open>
  Modelled from the spec: the disk store (\<^verbatim>\<open>self.disk_store\<close>) is an object of
  \<^verbatim>\<open>phy/io/store.py\<close>, which is not among the sources. By the spec it is "a key-value byte
  store keyed by (cluster-id, field-name), storing raw typed arrays as flat files":
  \<^verbatim>\<open>store(cluster, **named_arrays, append=False)\<close> writes the flattened array, at the end
  of the file when \<open>append\<close> is set and in place of it otherwise;
  \<^verbatim>\<open>load(cluster, field, dtype, shape)\<close> returns the file's elements in rows, the
  number of rows (the \<open>-1\<close> of the shape template) being the file size divided by the row
  size. A missing file is the spec's \<^verbatim>\<open>MissingDependencyError\<close>, a file size that is not a
  multiple of the row size its \<^verbatim>\<open>ShapeMismatchError\<close>. A file is the list of its elements.
  Files of 32-bit floats and files of 64-bit integers are kept in two maps.
\<close>

type_synonym disk = "nat \<times> string \<Rightarrow> fval list option"

definition disk_store :: "disk \<Rightarrow> nat \<Rightarrow> string \<Rightarrow> fval list \<Rightarrow> bool \<Rightarrow> disk" where
  "disk_store d cluster name data do_append =
     d((cluster, name) \<mapsto>
        (if do_append then (case d (cluster, name) of None \<Rightarrow> [] | Some old \<Rightarrow> old) @ data
         else data))"

definition reshape_rows :: "nat \<Rightarrow> 'a list \<Rightarrow> error + 'a list list" where
  "reshape_rows k xs =
     (if k = 0 \<or> length xs mod k \<noteq> 0 then Inl ShapeMismatchError
      else Inr (map (\<lambda>i. take k (drop (i * k) xs)) [0..<length xs div k]))"

definition disk_load :: "disk \<Rightarrow> nat \<Rightarrow> string \<Rightarrow> nat \<Rightarrow> error + fval list list" where
  "disk_load d cluster name k =
     (case d (cluster, name) of
        None \<Rightarrow> Inl MissingDependencyError
      | Some xs \<Rightarrow> reshape_rows k xs)"

text \<open>
  Modelled from the spec: the memory store (\<^verbatim>\<open>self.memory_store\<close>) is an object of
  \<^verbatim>\<open>phy/io/store.py\<close>, which is not among the sources. By the spec it is "a key-value
  store keyed by (cluster-id, field-name) for small values"; \<^verbatim>\<open>store(cluster, **values)\<close>
  sets the named fields of the cluster in one batch. The fields are those that the two
  items declare with storage class \<^verbatim>\<open>'memory'\<close>; a field never stored is \<open>None\<close>.
\<close>

record memory_entry =
  mean_masks :: "fval list option"
  sum_masks :: "fval list option"
  n_unmasked_channels :: "nat option"
  main_channels :: "nat list option"
  mean_probe_position :: "fval list option"
  mean_waveforms :: "fval list option"

record store =
  disk :: disk
  disk_int :: "nat \<times> string \<Rightarrow> int list option"
  memory :: "nat \<Rightarrow> memory_entry"

subsection \<open>The model and the features-and-masks item\<close>

text \<open>
  What the item reads from \<^verbatim>\<open>self.model\<close>. \<^verbatim>\<open>features_masks\<close> has shape
  \<open>(n_spikes, w, 2)\<close>: one row per spike, each row a list of (feature, mask) pairs.
  \<^verbatim>\<open>probe.positions\<close> has shape \<open>(p, probe_n_dims)\<close>. The model's \<^verbatim>\<open>n_spikes\<close> is
  the field \<open>model_n_spikes\<close>.
\<close>

record kwik_model =
  n_features_per_channel :: nat
  channel_order :: "nat list"
  model_n_spikes :: nat
  features_masks :: "(fval \<times> fval) list list"
  spike_clusters :: "nat list"
  probe_positions :: "fval list list"
  probe_n_dims :: nat

text \<open>
  The attributes set by \<^verbatim>\<open>FeatureMasks.__init__\<close>. \<^verbatim>\<open>cluster_ids\<close> is an attribute of
  the base class \<^verbatim>\<open>StoreItem\<close>, which is not among the sources; it is given to the
  constructor here. The progress reporters are observers that the store only writes to;
  they are left out.
\<close>

record feature_masks =
  chunk_size :: nat
  model :: kwik_model
  cluster_ids :: "nat list"
  n_features :: nat
  n_channels :: nat
  n_spikes :: nat
  n_chunks :: nat

definition init_feature_masks :: "kwik_model \<Rightarrow> nat list \<Rightarrow> nat \<Rightarrow> error + feature_masks" where
  "init_feature_masks m ids cs =
     (if cs = 0 then Inl ZeroDivisionError
      else Inr \<lparr> chunk_size = cs, model = m, cluster_ids = ids,
                 n_features = n_features_per_channel m,
                 n_channels = length (channel_order m),
                 n_spikes = model_n_spikes m,
                 n_chunks = model_n_spikes m div cs + 1 \<rparr>)"

subsection \<open>\<^verbatim>\<open>FeatureMasks._store_extra_fields\<close>\<close>

text \<open>
  The body of \<^verbatim>\<open>for cluster in clusters\<close>. The assertion that \<^verbatim>\<open>load\<close> returned an
  array has no branch of its own: the modelled \<^verbatim>\<open>load\<close> returns an array or raises.
\<close>

definition store_extra_fields_cluster :: "feature_masks \<Rightarrow> nat \<Rightarrow> store \<Rightarrow> error + store" where
  "store_extra_fields_cluster it cluster st =
     (case disk_load (disk st) cluster ''masks'' (n_channels it) of
        Inl e \<Rightarrow> Inl e
      | Inr masks \<Rightarrow>
         (let sm = sum_masks_of (n_channels it) masks;
              mm = mean_masks_of (n_channels it) masks;
              n_unmasked = n_unmasked_channels_of mm
          in case mean_probe_position_of (probe_positions (model it))
                    (probe_n_dims (model it)) mm of
               Inl e \<Rightarrow> Inl e
             | Inr mpp \<Rightarrow>
                (let mc = main_channels_of mm
                 in Inr (st\<lparr>memory := (memory st)
                      (cluster := (memory st cluster)
                         \<lparr>mean_masks := Some mm,
                          sum_masks := Some sm,
                          n_unmasked_channels := Some n_unmasked,
                          main_channels := Some mc,
                          mean_probe_position := Some mpp\<rparr>)\<rparr>))))"

fun store_extra_fields :: "feature_masks \<Rightarrow> nat list \<Rightarrow> store \<Rightarrow> error + store" where
  "store_extra_fields it [] st = Inr st"
| "store_extra_fields it (cluster # clusters) st =
     (case store_extra_fields_cluster it cluster st of
        Inl e \<Rightarrow> Inl e
      | Inr st' \<Rightarrow> store_extra_fields it clusters st')"

subsection \<open>\<^verbatim>\<open>FeatureMasks._store_cluster\<close> and \<^verbatim>\<open>FeatureMasks.store_all_clusters\<close>\<close>

text \<open>
  \<^verbatim>\<open>tmp[:, :nc * nf, 0]\<close> keeps the features of the first \<open>nc * nf\<close> columns (fewer when a
  row is shorter, which the shape assertion then rejects), \<^verbatim>\<open>tmp[:, :nc * nf, 1][:, ::nf]\<close>
  every \<open>nf\<close>-th mask of them; a slice step of zero raises \<^verbatim>\<open>ValueError\<close>.
\<close>

definition has_shape :: "'a list list \<Rightarrow> nat \<Rightarrow> nat \<Rightarrow> bool" where
  "has_shape a n k = (length a = n \<and> list_all (\<lambda>r. length r = k) a)"

definition store_cluster ::
  "feature_masks \<Rightarrow> nat \<Rightarrow> nat list \<Rightarrow> (nat \<times> nat list) list \<Rightarrow> (fval \<times> fval) list list
     \<Rightarrow> disk \<Rightarrow> error + disk" where
  "store_cluster it cluster chunk_spikes chunk_spikes_per_cluster chunk_features_masks d =
     (let nc = n_channels it; nf = n_features it
      in case map_of chunk_spikes_per_cluster cluster of
           None \<Rightarrow> Inl KeyError
         | Some cluster_spikes \<Rightarrow>
            (let ns = length cluster_spikes
             in case index_of cluster_spikes chunk_spikes of
                  Inl e \<Rightarrow> Inl e
                | Inr idx \<Rightarrow>
                   (case fancy_index chunk_features_masks idx of
                      Inl e \<Rightarrow> Inl e
                    | Inr tmp \<Rightarrow>
                       (let f = map (\<lambda>row. map fst (take (nc * nf) row)) tmp
                        in if \<not> has_shape f ns (nc * nf) then Inl AssertionError
                           else if nf = 0 then Inl ValueError
                           else
                            (let m = map (\<lambda>row. every_nth nf (map snd (take (nc * nf) row))) tmp
                             in if \<not> has_shape m ns nc then Inl AssertionError
                                else Inr (disk_store
                                       (disk_store d cluster ''features'' (concat f) True)
                                       cluster ''masks'' (concat m) True))))))"

text \<open>The loop \<^verbatim>\<open>for cluster in sorted(clusters)\<close> of one chunk.\<close>

fun store_clusters ::
  "feature_masks \<Rightarrow> nat list \<Rightarrow> nat list \<Rightarrow> (nat \<times> nat list) list \<Rightarrow> (fval \<times> fval) list list
     \<Rightarrow> disk \<Rightarrow> error + disk" where
  "store_clusters it [] chunk_spikes chunk_spc chunk_fm d = Inr d"
| "store_clusters it (cluster # clusters) chunk_spikes chunk_spc chunk_fm d =
     (case store_cluster it cluster chunk_spikes chunk_spc chunk_fm d of
        Inl e \<Rightarrow> Inl e
      | Inr d' \<Rightarrow> store_clusters it clusters chunk_spikes chunk_spc chunk_fm d')"

text \<open>The clusters of a chunk that are processed, in processing order:
  \<^verbatim>\<open>sorted(set(chunk_spc.keys()).intersection(set(clusters_to_generate)))\<close>.\<close>

definition chunk_clusters :: "(nat \<times> nat list) list \<Rightarrow> nat list \<Rightarrow> nat list" where
  "chunk_clusters chunk_spc clusters_to_generate =
     sorted_list_of_set (set (map fst chunk_spc) \<inter> set clusters_to_generate)"

text \<open>The body of \<^verbatim>\<open>for i in range(self.n_chunks)\<close> after the test for an empty chunk.\<close>

definition store_chunk :: "feature_masks \<Rightarrow> nat list \<Rightarrow> nat \<Rightarrow> disk \<Rightarrow> error + disk" where
  "store_chunk it clusters_to_generate i d =
     (let a = i * chunk_size it; b = (i + 1) * chunk_size it;
          chunk_features_masks = slice a b (features_masks (model it));
          chunk_spike_clusters = slice a b (spike_clusters (model it));
          chunk_spikes = [a..<b];
          chunk_spc = spikes_per_cluster chunk_spikes chunk_spike_clusters
      in store_clusters it (chunk_clusters chunk_spc clusters_to_generate)
           chunk_spikes chunk_spc chunk_features_masks d)"

text \<open>The loop over the chunks; an empty chunk ends it (\<^verbatim>\<open>break\<close>). A slice of the
  model's array is an array, so the \<^verbatim>\<open>isinstance\<close> assertion cannot fail.\<close>

fun store_chunks :: "feature_masks \<Rightarrow> nat list \<Rightarrow> nat list \<Rightarrow> disk \<Rightarrow> error + disk" where
  "store_chunks it clusters_to_generate [] d = Inr d"
| "store_chunks it clusters_to_generate (i # rest) d =
     (if length (slice (i * chunk_size it) ((i + 1) * chunk_size it)
                   (features_masks (model it))) = 0
      then Inr d
      else case store_chunk it clusters_to_generate i d of
             Inl e \<Rightarrow> Inl e
           | Inr d' \<Rightarrow> store_chunks it clusters_to_generate rest d')"

text \<open>
  \<^verbatim>\<open>store_all_clusters(mode)\<close>. \<^verbatim>\<open>self.to_generate(mode)\<close> is a method of the base
  class \<^verbatim>\<open>StoreItem\<close>, which is not among the sources; its result
  \<open>clusters_to_generate\<close> is an argument here.
\<close>

definition store_all_clusters :: "feature_masks \<Rightarrow> nat list \<Rightarrow> store \<Rightarrow> error + store" where
  "store_all_clusters it clusters_to_generate st =
     (let need_generate = (length clusters_to_generate > 0)
      in case (if need_generate
               then (if length (features_masks (model it)) \<noteq> n_spikes it
                     then Inl AssertionError
                     else store_chunks it clusters_to_generate [0..<n_chunks it] (disk st))
               else Inr (disk st)) of
           Inl e \<Rightarrow> Inl e
         | Inr d \<Rightarrow> store_extra_fields it (cluster_ids it) (st\<lparr>disk := d\<rparr>))"

subsection \<open>Partition changes\<close>

text \<open>
  The fields of the update object that the store items read. \<^verbatim>\<open>history\<close> is \<open>None\<close> for
  a genuine change and names the replay (\<^verbatim>\<open>'undo'\<close>, \<^verbatim>\<open>'redo'\<close>) otherwise.
\<close>

record update_info =
  description :: string
  history :: "string option"
  added :: "nat list"
  deleted :: "nat list"
  descendants :: "(nat \<times> nat) list"
  old_spikes_per_cluster :: "nat \<Rightarrow> nat list option"
  new_spikes_per_cluster :: "nat \<Rightarrow> nat list option"

text \<open>The disk fields with the row size of their shape template.\<close>

definition disk_fields :: "feature_masks \<Rightarrow> (string \<times> nat) list" where
  "disk_fields it = [(''features'', n_channels it * n_features it), (''masks'', n_channels it)]"

text \<open>The dictionary comprehension \<^verbatim>\<open>{cluster: load(cluster, name, ...) for cluster in clusters}\<close>.\<close>

definition load_arrays ::
  "disk \<Rightarrow> string \<Rightarrow> nat \<Rightarrow> nat list \<Rightarrow> error + (nat \<times> fval list list) list" where
  "load_arrays d name k clusters =
     map_err (\<lambda>cluster. case disk_load d cluster name k of
                           Inl e \<Rightarrow> Inl e
                         | Inr a \<Rightarrow> Inr (cluster, a)) clusters"

subsection \<open>\<^verbatim>\<open>FeatureMasks._merge\<close>\<close>

definition merge_field :: "update_info \<Rightarrow> string \<Rightarrow> nat \<Rightarrow> disk \<Rightarrow> error + disk" where
  "merge_field up name k d =
     (let clusters = deleted up; spc = old_spikes_per_cluster up
      in case load_arrays d name k clusters of
           Inl e \<Rightarrow> Inl e
         | Inr arrays \<Rightarrow>
            (case concatenate_per_cluster_arrays spc arrays of
               Inl e \<Rightarrow> Inl e
             | Inr rows \<Rightarrow>
                (case added up of
                   [] \<Rightarrow> Inl IndexError
                 | new # _ \<Rightarrow> Inr (disk_store d new name (concat rows) False))))"

fun merge_fields :: "update_info \<Rightarrow> (string \<times> nat) list \<Rightarrow> disk \<Rightarrow> error + disk" where
  "merge_fields up [] d = Inr d"
| "merge_fields up ((name, k) # rest) d =
     (case merge_field up name k d of
        Inl e \<Rightarrow> Inl e
      | Inr d' \<Rightarrow> merge_fields up rest d')"

definition merge :: "feature_masks \<Rightarrow> update_info \<Rightarrow> disk \<Rightarrow> error + disk" where
  "merge it up d = merge_fields up (disk_fields it) d"

subsection \<open>\<^verbatim>\<open>FeatureMasks._assign\<close>\<close>

text \<open>The body of \<^verbatim>\<open>for old in old_clusters\<close>: the entries \<^verbatim>\<open>spc[old]\<close> and
  \<^verbatim>\<open>old_arrays_sub[old]\<close>.\<close>

definition assign_old ::
  "update_info \<Rightarrow> (nat \<times> 'a list) list \<Rightarrow> nat \<Rightarrow> nat \<Rightarrow> error + (nat \<times> nat list \<times> 'a list)" where
  "assign_old up old_arrays new old =
     (case old_spikes_per_cluster up old of
        None \<Rightarrow> Inl KeyError
      | Some old_spikes \<Rightarrow>
         (case new_spikes_per_cluster up new of
            None \<Rightarrow> Inl KeyError
          | Some new_spikes \<Rightarrow>
             (let old_spikes_subset = filter (\<lambda>s. s \<in> set new_spikes) old_spikes
              in case index_of old_spikes_subset old_spikes of
                   Inl e \<Rightarrow> Inl e
                 | Inr old_spikes_rel \<Rightarrow>
                    (case map_of old_arrays old of
                       None \<Rightarrow> Inl KeyError
                     | Some a \<Rightarrow>
                        (case fancy_index a old_spikes_rel of
                           Inl e \<Rightarrow> Inl e
                         | Inr sub \<Rightarrow> Inr (old, old_spikes_subset, sub))))))"

text \<open>The array of one new cluster.\<close>

definition assign_new ::
  "update_info \<Rightarrow> (nat \<times> 'a list) list \<Rightarrow> nat \<Rightarrow> error + 'a list" where
  "assign_new up old_arrays new =
     (let old_clusters = map fst (filter (\<lambda>(old, n). n = new) (descendants up))
      in case map_err (assign_old up old_arrays new) old_clusters of
           Inl e \<Rightarrow> Inl e
         | Inr entries \<Rightarrow>
             concatenate_per_cluster_arrays
               (map_of (map (\<lambda>(old, spikes, sub). (old, spikes)) entries))
               (map (\<lambda>(old, spikes, sub). (old, sub)) entries))"

fun assign_news ::
  "update_info \<Rightarrow> (nat \<times> fval list list) list \<Rightarrow> string \<Rightarrow> nat list \<Rightarrow> disk \<Rightarrow> error + disk" where
  "assign_news up old_arrays name [] d = Inr d"
| "assign_news up old_arrays name (new # news) d =
     (case assign_new up old_arrays new of
        Inl e \<Rightarrow> Inl e
      | Inr rows \<Rightarrow> assign_news up old_arrays name news (disk_store d new name (concat rows) False))"

definition assign_field :: "update_info \<Rightarrow> string \<Rightarrow> nat \<Rightarrow> disk \<Rightarrow> error + disk" where
  "assign_field up name k d =
     (case load_arrays d name k (deleted up) of
        Inl e \<Rightarrow> Inl e
      | Inr old_arrays \<Rightarrow> assign_news up old_arrays name (added up) d)"

fun assign_fields :: "update_info \<Rightarrow> (string \<times> nat) list \<Rightarrow> disk \<Rightarrow> error + disk" where
  "assign_fields up [] d = Inr d"
| "assign_fields up ((name, k) # rest) d =
     (case assign_field up name k d of
        Inl e \<Rightarrow> Inl e
      | Inr d' \<Rightarrow> assign_fields up rest d')"

definition assign :: "feature_masks \<Rightarrow> update_info \<Rightarrow> disk \<Rightarrow> error + disk" where
  "assign it up d = assign_fields up (disk_fields it) d"

subsection \<open>\<^verbatim>\<open>FeatureMasks.on_cluster\<close>\<close>

definition on_cluster :: "feature_masks \<Rightarrow> update_info option \<Rightarrow> store \<Rightarrow> error + store" where
  "on_cluster it up st =
     (case up of
        None \<Rightarrow> Inr st
      | Some u \<Rightarrow>
          if history u \<noteq> None then Inr st
          else case (if description u = ''merge'' then merge it u (disk st)
                     else if description u = ''assign'' then assign it u (disk st)
                     else Inr (disk st)) of
                 Inl e \<Rightarrow> Inl e
               | Inr d \<Rightarrow> store_extra_fields it (added u) (st\<lparr>disk := d\<rparr>))"

subsection \<open>The waveforms item\<close>

text \<open>
  The attributes of \<^verbatim>\<open>Waveforms\<close>. \<^verbatim>\<open>subset_spikes_clusters\<close> is the method of the
  \<^verbatim>\<open>Selector\<close> (of \<^verbatim>\<open>phy/utils\<close>, not among the sources) that picks the spikes of the
  given clusters to keep; it is a field of the item. \<^verbatim>\<open>waveforms\<close> is the model's array
  of waveforms, one flattened row of \<open>n_samples * n_channels\<close> elements per spike.
\<close>

record waveforms_item =
  wf_n_channels :: nat
  wf_n_samples :: nat
  subset_spikes_clusters :: "nat list \<Rightarrow> nat list"
  waveforms :: "fval list list"

definition waveforms_store_cluster :: "waveforms_item \<Rightarrow> nat \<Rightarrow> store \<Rightarrow> error + store" where
  "waveforms_store_cluster w cluster st =
     (let spikes = subset_spikes_clusters w [cluster]
      in case fancy_index (waveforms w) spikes of
           Inl e \<Rightarrow> Inl e
         | Inr wv \<Rightarrow>
             Inr (st\<lparr>disk := disk_store (disk st) cluster ''waveforms'' (concat wv) False,
                     disk_int := (disk_int st)((cluster, ''waveforms_spikes'') \<mapsto> map int spikes),
                     memory := (memory st)
                       (cluster := (memory st cluster)
                          \<lparr>mean_waveforms :=
                             Some (mean_axis0 (wf_n_samples w * wf_n_channels w) wv)\<rparr>)\<rparr>))"

fun waveforms_store_clusters :: "waveforms_item \<Rightarrow> nat list \<Rightarrow> store \<Rightarrow> error + store" where
  "waveforms_store_clusters w [] st = Inr st"
| "waveforms_store_clusters w (cluster # clusters) st =
     (case waveforms_store_cluster w cluster st of
        Inl e \<Rightarrow> Inl e
      | Inr st' \<Rightarrow> waveforms_store_clusters w clusters st')"

definition waveforms_on_cluster ::
  "waveforms_item \<Rightarrow> update_info option \<Rightarrow> store \<Rightarrow> error + store" where
  "waveforms_on_cluster w up st =
     (case up of
        None \<Rightarrow> Inr st
      | Some u \<Rightarrow>
          if history u \<noteq> None then Inr st
          else if description u \<in> {''merge'', ''assign''}
               then waveforms_store_clusters w (added u) st
               else Inr st)"

subsection \<open>Vocabulary of the statements\<close>

text \<open>The memory entry of a cluster for which nothing was stored.\<close>

definition empty_entry :: memory_entry where
  "empty_entry = \<lparr>mean_masks = None, sum_masks = None, n_unmasked_channels = None,
     main_channels = None, mean_probe_position = None, mean_waveforms = None\<rparr>"


text \<open>
  The entry \<open>e\<close> holds the extra fields that \<^verbatim>\<open>_store_extra_fields\<close> derives for the
  cluster from its \<^verbatim>\<open>masks\<close> file on the disk \<open>d\<close>.
\<close>

definition has_extra_fields :: "feature_masks \<Rightarrow> disk \<Rightarrow> nat \<Rightarrow> memory_entry \<Rightarrow> bool" where
  "has_extra_fields it d cluster e =
     (case disk_load d cluster ''masks'' (n_channels it) of
        Inl err \<Rightarrow> False
      | Inr masks \<Rightarrow>
          mean_masks e = Some (mean_masks_of (n_channels it) masks) \<and>
          sum_masks e = Some (sum_masks_of (n_channels it) masks) \<and>
          n_unmasked_channels e =
            Some (n_unmasked_channels_of (mean_masks_of (n_channels it) masks)) \<and>
          main_channels e = Some (main_channels_of (mean_masks_of (n_channels it) masks)) \<and>
          (case mean_probe_position_of (probe_positions (model it)) (probe_n_dims (model it))
                  (mean_masks_of (n_channels it) masks) of
             Inl err \<Rightarrow> False
           | Inr mpp \<Rightarrow> mean_probe_position e = Some mpp))"

text \<open>The records of cluster \<open>c\<close> among the records \<open>lo, \<dots>, hi - 1\<close>, in ascending order,
  for the cluster assignment \<open>clu\<close>.\<close>

definition cluster_spikes :: "nat list \<Rightarrow> nat \<Rightarrow> nat \<Rightarrow> nat \<Rightarrow> nat list" where
  "cluster_spikes clu c lo hi = filter (\<lambda>s. clu ! s = c) [lo..<hi]"

text \<open>The row of record \<open>s\<close> in the \<^verbatim>\<open>features\<close> file and in the \<^verbatim>\<open>masks\<close> file: the
  features of the first \<open>n_channels * n_features\<close> columns of the model's array, and the
  mask of the first column of each channel.\<close>

definition field_row :: "kwik_model \<Rightarrow> string \<Rightarrow> nat \<Rightarrow> fval list" where
  "field_row m name s =
     (let row = take (length (channel_order m) * n_features_per_channel m) (features_masks m ! s)
      in if name = ''features'' then map fst row
         else every_nth (n_features_per_channel m) (map snd row))"

text \<open>The disk expected after generating, for the clusters to generate, the records
  \<open>lo, \<dots>, hi - 1\<close>: the files of every such cluster with a record in that range are
  extended by the rows of its records in ascending order; nothing else changes.\<close>

definition generated :: "kwik_model \<Rightarrow> nat list \<Rightarrow> nat \<Rightarrow> nat \<Rightarrow> disk \<Rightarrow> disk" where
  "generated m clusters_to_generate lo hi d =
     (\<lambda>(c, name).
        if c \<in> set clusters_to_generate \<and> cluster_spikes (spike_clusters m) c lo hi \<noteq> [] \<and>
           (name = ''features'' \<or> name = ''masks'')
        then Some ((case d (c, name) of None \<Rightarrow> [] | Some old \<Rightarrow> old) @
                   concat (map (field_row m name) (cluster_spikes (spike_clusters m) c lo hi)))
        else d (c, name))"

text \<open>A model whose arrays fit its \<^verbatim>\<open>n_spikes\<close>, with at least one feature per
  channel and at least \<open>n_channels * n_features\<close> columns in \<^verbatim>\<open>features_masks\<close>.\<close>

definition well_formed :: "kwik_model \<Rightarrow> bool" where
  "well_formed m =
     (length (features_masks m) = model_n_spikes m \<and>
      length (spike_clusters m) = model_n_spikes m \<and>
      0 < n_features_per_channel m \<and>
      list_all (\<lambda>row. length (channel_order m) * n_features_per_channel m \<le> length row)
        (features_masks m))"


section \<open>Consistency check\<close>

lemma is_consistent_iff:
  "is_consistent nc nf fs c spikes \<longleftrightarrow>
     fs c ''masks'' = Some (length spikes * nc * 4) \<and>
     fs c ''features'' = Some (length spikes * nc * nf * 4)"
  by (auto simp: is_consistent_def expected_file_sizes_def Let_def split: option.splits)

text \<open>
  C3, as stated, for every store item: \<open>is_consistent\<close> is false when a disk-field file is
  missing or its size differs from \<open>record_count * element_size * product(trailing_dims)\<close>,
  in particular after a one-byte corruption. The waveforms item does not behave so. With
  one channel and one sample per waveform and a cluster of three records, the expected size
  of the \<^verbatim>\<open>waveforms\<close> file is \<open>3 * 4 * 1\<close> bytes; files that hold two waveforms and
  two record indices (8 and 16 bytes) are reported consistent. For a cluster of one record, a
  \<^verbatim>\<open>waveforms\<close> file of 5 bytes (one byte too many) next to an 8-byte
  \<^verbatim>\<open>waveforms_spikes\<close> file is reported consistent as well.
\<close>

theorem waveforms_is_consistent_counterexample:
  "waveforms_is_consistent 1 1
      (\<lambda>c name. if name = ''waveforms'' then Some 8 else Some 16) 0 [0, 1, 2] = Inr True
   \<and> (8::nat) \<noteq> length [0::nat, 1, 2] * 4 * (1 * 1)
   \<and> waveforms_is_consistent 1 1
      (\<lambda>c name. if name = ''waveforms'' then Some 5 else Some 8) 0 [0] = Inr True
   \<and> (5::nat) \<noteq> length [0::nat] * 4 * (1 * 1)"
  by (simp add: waveforms_is_consistent_def)

text \<open>
  C3, amended. For the features-and-masks item, \<open>is_consistent\<close> is true exactly when the
  \<^verbatim>\<open>masks\<close> file exists with \<open>n * c * 4\<close> bytes and the \<^verbatim>\<open>features\<close> file exists with
  \<open>n * c * f * 4\<close> bytes, where \<open>n\<close> is the number of records passed; hence any change of
  the size of one of the two files of a consistent cluster makes it false. For the waveforms
  item the records passed play no role; the result is false when one of the two files is
  missing; and when both files hold whole records (\<open>kw\<close> waveforms of
  \<open>n_channels * n_samples * 4 > 0\<close> bytes, \<open>ks\<close> record indices of 8 bytes), the result is
  true exactly when the two counts agree.
\<close>

theorem is_consistent_amended:
  "(is_consistent nc nf fs c spikes \<longleftrightarrow>
      fs c ''masks'' = Some (length spikes * nc * 4) \<and>
      fs c ''features'' = Some (length spikes * nc * nf * 4))
   \<and> (is_consistent nc nf fs c spikes \<and> name \<in> {''masks'', ''features''} \<and>
        fs' c name \<noteq> fs c name \<longrightarrow> \<not> is_consistent nc nf fs' c spikes)
   \<and> waveforms_is_consistent nc ns fs c spikes = waveforms_is_consistent nc ns fs c spikes'
   \<and> (fs c ''waveforms'' = None \<or> fs c ''waveforms_spikes'' = None \<longrightarrow>
        waveforms_is_consistent nc ns fs c spikes = Inr False)
   \<and> (0 < nc * ns \<and> fs c ''waveforms'' = Some (kw * (nc * ns * 4)) \<and>
        fs c ''waveforms_spikes'' = Some (ks * 8) \<longrightarrow>
        waveforms_is_consistent nc ns fs c spikes = Inr (ks = kw))"
proof -
  have a: "is_consistent nc nf fs c spikes \<and> name \<in> {''masks'', ''features''} \<and>
        fs' c name \<noteq> fs c name \<longrightarrow> \<not> is_consistent nc nf fs' c spikes"
    unfolding is_consistent_iff by auto
  have b: "waveforms_is_consistent nc ns fs c spikes = waveforms_is_consistent nc ns fs c spikes'"
    by (simp add: waveforms_is_consistent_def)
  have m: "fs c ''waveforms'' = None \<or> fs c ''waveforms_spikes'' = None \<longrightarrow>
        waveforms_is_consistent nc ns fs c spikes = Inr False"
    by (auto simp: waveforms_is_consistent_def split: option.splits)
  have w: "0 < nc * ns \<and> fs c ''waveforms'' = Some (kw * (nc * ns * 4)) \<and>
        fs c ''waveforms_spikes'' = Some (ks * 8) \<longrightarrow>
        waveforms_is_consistent nc ns fs c spikes = Inr (ks = kw)"
    by (auto simp: waveforms_is_consistent_def)
  show ?thesis using is_consistent_iff a b m w by blast
qed

theorem is_consistent_amended_witness:
  "is_consistent 2 3 (\<lambda>c name. if name = ''masks'' then Some 16 else Some 48) 7 [0, 1]
   \<and> \<not> is_consistent 2 3 (\<lambda>c name. if name = ''masks'' then Some 17 else Some 48) 7 [0, 1]
   \<and> waveforms_is_consistent 2 3
        (\<lambda>c name. if name = ''waveforms'' then Some 48 else Some 16) 7 [0, 1, 2] = Inr True
   \<and> waveforms_is_consistent 2 3
        (\<lambda>c name. if name = ''waveforms'' then None else Some 16) 7 [0, 1, 2] = Inr False"
proof -
  have "is_consistent 2 3 (\<lambda>c name. if name = ''masks'' then Some 16 else Some 48) 7 [0, 1]
   \<and> \<not> is_consistent 2 3 (\<lambda>c name. if name = ''masks'' then Some 17 else Some 48) 7 [0, 1]"
    using is_consistent_amended [of 2 3 "\<lambda>c name. if name = ''masks'' then Some 16 else Some 48"
      7 "[0, 1]" "''masks''" "\<lambda>c name. if name = ''masks'' then Some 17 else Some 48"]
    by simp
  moreover have "waveforms_is_consistent 2 3
        (\<lambda>c name. if name = ''waveforms'' then Some 48 else Some 16) 7 [0, 1, 2] = Inr True"
    using is_consistent_amended [of 2 3
      "\<lambda>c name. if name = ''waveforms'' then Some 48 else Some 16" 7 "[0, 1, 2]" "''masks''"
      "\<lambda>c name. None" 3 "[0, 1, 2]" 2 2]
    by simp
  moreover have "waveforms_is_consistent 2 3
        (\<lambda>c name. if name = ''waveforms'' then None else Some 16) 7 [0, 1, 2] = Inr False"
    using is_consistent_amended [of 2 3
      "\<lambda>c name. if name = ''waveforms'' then None else Some 16" 7 "[0, 1, 2]" "''masks''"
      "\<lambda>c name. None" 3 "[0, 1, 2]" 2 2]
    by simp
  ultimately show ?thesis by blast
qed

section \<open>Statistics derivation\<close>

lemma mem_nonzero_gt: "c \<in> set (nonzero_gt xs t) \<longleftrightarrow> c < length xs \<and> fgt (xs ! c) t"
  by (auto simp: nonzero_gt_def)

lemma length_sum_axis0: "length (sum_axis0 n rows) = n"
  by (simp add: sum_axis0_def)

lemma length_mean_masks_of: "length (mean_masks_of nc masks) = nc"
  by (simp add: mean_masks_of_def sum_masks_of_def length_sum_axis0)

lemma set_argsort: "set (argsort xs) = {0..<length xs}"
  by (simp add: argsort_def)

lemma distinct_argsort: "distinct (argsort xs)"
  by (simp add: argsort_def)

lemma sorted_argsort: "sorted (map (\<lambda>i. sort_rank (xs ! i)) (argsort xs))"
  by (simp add: argsort_def)



lemma rank_fge: "fgt x t \<Longrightarrow> fgt y t \<Longrightarrow> sort_rank y \<le> sort_rank x \<Longrightarrow> fge x y"
  by (cases x; cases y) (auto simp: less_eq_prod_def)

lemma set_main_channels_of: "set (main_channels_of mm) = set (unmasked_channels_of mm)"
  by (auto simp: main_channels_of_def set_argsort unmasked_channels_of_def mem_nonzero_gt)

lemma sorted_main_channels_of:
  "sorted_wrt (\<lambda>a b. fge (mm ! a) (mm ! b)) (main_channels_of mm)"
proof -
  let ?k = "\<lambda>i. sort_rank (mm ! i)"
  have "sorted_wrt (\<lambda>a b. ?k a \<le> ?k b) (argsort mm)"
    using sorted_argsort [of mm] by (simp add: sorted_map)
  then have "sorted_wrt (\<lambda>a b. ?k b \<le> ?k a) (rev (argsort mm))"
    by (simp add: sorted_wrt_rev)
  then have s: "sorted_wrt (\<lambda>a b. ?k b \<le> ?k a) (main_channels_of mm)"
    by (simp add: main_channels_of_def sorted_wrt_filter)
  have imp: "\<And>a b. a \<in> set (main_channels_of mm) \<Longrightarrow> b \<in> set (main_channels_of mm) \<Longrightarrow>
      ?k b \<le> ?k a \<Longrightarrow> fge (mm ! a) (mm ! b)"
    unfolding set_main_channels_of unmasked_channels_of_def mem_nonzero_gt
    by (blast intro: rank_fge)
  show ?thesis
    by (rule sorted_wrt_mono_rel [OF _ s]) (rule imp)
qed

text \<open>
  C9. \<^verbatim>\<open>main_channels\<close> is computed sort-then-filter: all channels are ordered by
  \<^verbatim>\<open>argsort\<close> (a permutation of all channel indices, ascending by mean mask), the order
  is reversed, and the unmasked channels are kept. The result lists exactly the unmasked
  channels, each once, in descending order of mean mask.
\<close>

theorem main_channels_sort_then_filter:
  "main_channels_of mm =
      filter (\<lambda>c. c \<in> set (unmasked_channels_of mm)) (rev (argsort mm))
   \<and> set (argsort mm) = {0..<length mm}
   \<and> sorted (map (\<lambda>i. sort_rank (mm ! i)) (argsort mm))
   \<and> set (main_channels_of mm) = set (unmasked_channels_of mm)
   \<and> distinct (main_channels_of mm)
   \<and> sorted_wrt (\<lambda>a b. fge (mm ! a) (mm ! b)) (main_channels_of mm)"
  using set_argsort sorted_argsort set_main_channels_of sorted_main_channels_of
  by (simp add: main_channels_of_def distinct_argsort)

theorem main_channels_sort_then_filter_witness:
  "main_channels_of [Fin (1 / 2), Fin (1 / 20), Fin (9 / 10), NaN, Fin (3 / 10), PInf]
     = [5, 2, 0, 4]
   \<and> set (unmasked_channels_of
        [Fin (1 / 2), Fin (1 / 20), Fin (9 / 10), NaN, Fin (3 / 10), PInf]) = {0, 2, 4, 5}"
  using main_channels_sort_then_filter
    [of "[Fin (1 / 2), Fin (1 / 20), Fin (9 / 10), NaN, Fin (3 / 10), PInf]"]
  by (simp add: unmasked_channels_of_def nonzero_gt_def argsort_def upt_rec numeral_nat
      insert_commute)

lemma sum_axis0_Nil: "sum_axis0 nc [] = replicate nc (Fin 0)"
  by (simp add: sum_axis0_def map_replicate_const)

lemma mean_masks_of_Nil: "mean_masks_of nc [] = replicate nc NaN"
  by (simp add: mean_masks_of_def sum_masks_of_def sum_axis0_Nil)

lemma unmasked_replicate_NaN: "unmasked_channels_of (replicate nc NaN) = []"
  by (simp add: unmasked_channels_of_def nonzero_gt_def filter_empty_conv)

text \<open>
  C10. \<^verbatim>\<open>mean_masks\<close> is the column sum divided by the number of stored rows. With at
  least one row, the mean of a column with a finite sum \<open>s\<close> is the number \<open>s / n\<close>. With
  no row the divisor is zero, every column sum is \<open>0\<close>, and every entry of \<^verbatim>\<open>mean_masks\<close>
  is NaN; no channel is then unmasked and \<^verbatim>\<open>main_channels\<close> is empty. An empty
  \<^verbatim>\<open>masks\<close> file loads as an array with no row.
\<close>

theorem mean_masks_needs_rows:
  "(masks \<noteq> [] \<and> j < nc \<and> sum_masks_of nc masks ! j = Fin s \<longrightarrow>
      mean_masks_of nc masks ! j = Fin (s / real (length masks)))
   \<and> (masks = [] \<longrightarrow>
        real (length masks) = 0 \<and> mean_masks_of nc masks = replicate nc NaN \<and>
        n_unmasked_channels_of (mean_masks_of nc masks) = 0 \<and>
        main_channels_of (mean_masks_of nc masks) = [])
   \<and> (0 < nc \<and> d (c, ''masks'') = Some [] \<longrightarrow> disk_load d c ''masks'' nc = Inr [])"
proof -
  have e: "0 < nc \<and> d (c, ''masks'') = Some [] \<longrightarrow> disk_load d c ''masks'' nc = Inr []"
    by (simp add: disk_load_def reshape_rows_def)
  have a: "masks \<noteq> [] \<and> j < nc \<and> sum_masks_of nc masks ! j = Fin s \<longrightarrow>
      mean_masks_of nc masks ! j = Fin (s / real (length masks))"
    by (simp add: mean_masks_of_def sum_masks_of_def length_sum_axis0)
  have b: "masks = [] \<longrightarrow>
        real (length masks) = 0 \<and> mean_masks_of nc masks = replicate nc NaN \<and>
        n_unmasked_channels_of (mean_masks_of nc masks) = 0 \<and>
        main_channels_of (mean_masks_of nc masks) = []"
    by (simp add: mean_masks_of_Nil unmasked_replicate_NaN n_unmasked_channels_of_def
        main_channels_of_def)
  from a b e show ?thesis by blast
qed

theorem mean_masks_needs_rows_witness:
  "mean_masks_of 2 [ [Fin 1, Fin 0], [Fin 0, Fin 0], [Fin 1, Fin 1] ] ! 0 = Fin (2 / 3)
   \<and> mean_masks_of 2 [] = [NaN, NaN]
   \<and> disk_load [(0, ''masks'') \<mapsto> [] ] 0 ''masks'' 2 = Inr []"
proof -
  have s: "sum_masks_of 2 [ [Fin 1, Fin 0], [Fin 0, Fin 0], [Fin 1, Fin 1] ] ! 0 = Fin 2"
    by (simp add: sum_masks_of_def sum_axis0_def upt_rec numeral_nat)
  have "mean_masks_of 2 [ [Fin 1, Fin 0], [Fin 0, Fin 0], [Fin 1, Fin 1] ] ! 0 = Fin (2 / 3)"
    using s mean_masks_needs_rows
      [of "[ [Fin 1, Fin 0], [Fin 0, Fin 0], [Fin 1, Fin 1] ]" 0 2 2 "[(0, ''masks'') \<mapsto> [] ]" 0]
    by simp
  moreover have "mean_masks_of 2 [] = [NaN, NaN]"
    using mean_masks_needs_rows [of "[]" 0 2 0 "[(0, ''masks'') \<mapsto> [] ]" 0]
    by (simp add: numeral_2_eq_2)
  moreover have "disk_load [(0, ''masks'') \<mapsto> [] ] 0 ''masks'' 2 = Inr []"
    using mean_masks_needs_rows [of "[]" 0 2 0 "[(0, ''masks'') \<mapsto> [] ]" 0]
    by simp
  ultimately show ?thesis by simp
qed

section \<open>Merge and assign\<close>

lemma map_err_Inr: "(\<And>x. x \<in> set xs \<Longrightarrow> f x = Inr (g x)) \<Longrightarrow> map_err f xs = Inr (map g xs)"
  by (induction xs) auto

lemma rows_of_concat:
  "\<forall>r\<in>set rows. length r = k \<Longrightarrow>
     map (\<lambda>i. take k (drop (i * k) (concat rows))) [0..<length rows] = rows"
proof (induction rows)
  case Nil
  then show ?case by simp
next
  case (Cons r rows)
  have "[0..<length (r # rows)] = 0 # map Suc [0..<length rows]"
    by (simp add: upt_conv_Cons map_Suc_upt del: upt_Suc)
  moreover have "length r = k" using Cons.prems by simp
  ultimately show ?case using Cons by (simp add: comp_def del: upt_Suc)
qed

lemma length_concat_rows: "\<forall>r\<in>set rows. length r = k \<Longrightarrow> length (concat rows) = length rows * k"
  by (induction rows) auto

lemma reshape_rows_concat:
  "0 < k \<Longrightarrow> \<forall>r\<in>set rows. length r = k \<Longrightarrow> reshape_rows k (concat rows) = Inr rows"
proof -
  assume k: "0 < k" and rows: "\<forall>r\<in>set rows. length r = k"
  have len: "length (concat rows) = length rows * k"
    using rows by (rule length_concat_rows)
  show ?thesis
    unfolding reshape_rows_def len using k rows_of_concat [OF rows] by simp
qed

lemma disk_load_aligned:
  "d (c, name) = Some (concat (map val sp)) \<Longrightarrow> 0 < k \<Longrightarrow> \<forall>s. length (val s) = k \<Longrightarrow>
   disk_load d c name k = Inr (map val sp)"
  by (simp add: disk_load_def reshape_rows_concat)

lemma load_arrays_aligned:
  "\<forall>c\<in>set cs. d (c, name) = Some (concat (map val (sp c))) \<Longrightarrow> 0 < k \<Longrightarrow>
   \<forall>s. length (val s) = k \<Longrightarrow>
   load_arrays d name k cs = Inr (map (\<lambda>c. (c, map val (sp c))) cs)"
  unfolding load_arrays_def
  by (rule map_err_Inr) (simp add: disk_load_aligned)

lemma insort_key_tagged:
  "insort_key fst (s, val s) (map (\<lambda>s. (s, val s)) ys) = map (\<lambda>s. (s, val s)) (insort s ys)"
  by (induction ys) auto

lemma sort_key_tagged:
  "sort_key fst (map (\<lambda>s. (s, val s)) xs) = map (\<lambda>s. (s, val s)) (sort xs)"
  by (induction xs) (auto simp: insort_key_tagged)

lemma map_of_tabulate: "c \<in> set cs \<Longrightarrow> map_of (map (\<lambda>c. (c, g c)) cs) c = Some (g c)"
  by (induction cs) auto

lemma zip_tag: "zip sp (map val sp) = map (\<lambda>s. (s, val s)) sp"
  by (induction sp) auto

lemma concat_tagged:
  "concat (map (\<lambda>c. map (\<lambda>s. (s, val s)) (sp c)) cs) = map (\<lambda>s. (s, val s)) (concat (map sp cs))"
  by (induction cs) auto

lemma concatenate_aligned:
  assumes "\<forall>c\<in>set cs. spc c = Some (sp c)"
  shows "concatenate_per_cluster_arrays spc (map (\<lambda>c. (c, map val (sp c))) cs)
         = Inr (map val (sort (concat (map sp (sorted_list_of_set (set cs))))))"
proof -
  let ?arrays = "map (\<lambda>c. (c, map val (sp c))) cs"
  let ?cl = "sorted_list_of_set (set cs)"
  have keys: "set (map fst ?arrays) = set cs" by (auto simp: image_iff)
  have "map_err
           (\<lambda>cluster.
              case spc cluster of
                None \<Rightarrow> Inl KeyError
              | Some spikes \<Rightarrow>
                 (case map_of ?arrays cluster of
                    None \<Rightarrow> Inl KeyError
                  | Some rows \<Rightarrow>
                      if length spikes \<noteq> length rows then Inl AssertionError
                      else Inr (zip spikes rows))) ?cl
        = Inr (map (\<lambda>c. map (\<lambda>s. (s, val s)) (sp c)) ?cl)"
    by (rule map_err_Inr) (use assms in \<open>simp add: map_of_tabulate zip_tag\<close>)
  then show ?thesis
    unfolding concatenate_per_cluster_arrays_def keys Let_def
    by (simp add: concat_tagged sort_key_tagged comp_def)
qed

lemma distinct_concat_disjoint:
  "distinct cs \<Longrightarrow> \<forall>c\<in>set cs. distinct (sp c) \<Longrightarrow>
   \<forall>c\<in>set cs. \<forall>c'\<in>set cs. c \<noteq> c' \<longrightarrow> set (sp c) \<inter> set (sp c') = {} \<Longrightarrow>
   distinct (concat (map sp cs))"
proof (induction cs)
  case Nil
  then show ?case by simp
next
  case (Cons c cs)
  then show ?case by (auto simp del: Int_iff)
qed

lemma sort_distinct: "distinct xs \<Longrightarrow> sort xs = sorted_list_of_set (set xs)"
  by (simp add: sorted_list_of_set_sort_remdups distinct_remdups_id)

lemma sort_concat_sets:
  assumes "\<forall>c\<in>set cs. distinct (sp c)"
    and "\<forall>c\<in>set cs. \<forall>c'\<in>set cs. c \<noteq> c' \<longrightarrow> set (sp c) \<inter> set (sp c') = {}"
  shows "sort (concat (map sp (sorted_list_of_set (set cs))))
         = sorted_list_of_set (\<Union>c\<in>set cs. set (sp c))"
proof -
  let ?cl = "sorted_list_of_set (set cs)"
  have "distinct (concat (map sp ?cl))"
    by (rule distinct_concat_disjoint) (use assms in auto)
  then have "sort (concat (map sp ?cl)) = sorted_list_of_set (set (concat (map sp ?cl)))"
    by (rule sort_distinct)
  also have "set (concat (map sp ?cl)) = (\<Union>c\<in>set cs. set (sp c))"
    by simp
  finally show ?thesis .
qed


lemma merge_field_aligned:
  assumes "added up = [new]" and "0 < k"
    and "\<forall>c\<in>set (deleted up). old_spikes_per_cluster up c = Some (sp c)"
    and "\<forall>c\<in>set (deleted up). distinct (sp c)"
    and "\<forall>c\<in>set (deleted up). \<forall>c'\<in>set (deleted up). c \<noteq> c' \<longrightarrow> set (sp c) \<inter> set (sp c') = {}"
    and "\<forall>s. length (val s) = k"
    and "\<forall>c\<in>set (deleted up). d (c, name) = Some (concat (map val (sp c)))"
  shows "merge_field up name k d =
           Inr (d((new, name) \<mapsto>
              concat (map val (sorted_list_of_set (\<Union>c\<in>set (deleted up). set (sp c))))))"
proof -
  have l: "load_arrays d name k (deleted up) = Inr (map (\<lambda>c. (c, map val (sp c))) (deleted up))"
    using assms(7,2,6) by (rule load_arrays_aligned)
  have c: "concatenate_per_cluster_arrays (old_spikes_per_cluster up)
             (map (\<lambda>c. (c, map val (sp c))) (deleted up))
           = Inr (map val (sorted_list_of_set (\<Union>c\<in>set (deleted up). set (sp c))))"
    using concatenate_aligned [OF assms(3)] sort_concat_sets [OF assms(4,5)] by simp
  show ?thesis
    unfolding merge_field_def Let_def l using c assms(1) by (simp add: disk_store_def)
qed

lemma store_extra_fields_cluster_disk:
  "store_extra_fields_cluster it c st = Inr st' \<Longrightarrow> disk st' = disk st"
  by (auto simp: store_extra_fields_cluster_def Let_def split: sum.splits)

lemma store_extra_fields_disk:
  "store_extra_fields it cs st = Inr st' \<Longrightarrow> disk st' = disk st"
proof (induction cs arbitrary: st)
  case Nil
  then show ?case by simp
next
  case (Cons c cs)
  then show ?case
    by (auto split: sum.splits dest: store_extra_fields_cluster_disk)
qed

lemma merge_aligned:
  assumes "added up = [new]"
    and "0 < n_channels it" and "0 < n_features it"
    and "\<forall>c\<in>set (deleted up). old_spikes_per_cluster up c = Some (sp c)"
    and "\<forall>c\<in>set (deleted up). distinct (sp c)"
    and "\<forall>c\<in>set (deleted up). \<forall>c'\<in>set (deleted up). c \<noteq> c' \<longrightarrow> set (sp c) \<inter> set (sp c') = {}"
    and "\<forall>s. length (features_row s) = n_channels it * n_features it"
    and "\<forall>s. length (masks_row s) = n_channels it"
    and "\<forall>c\<in>set (deleted up). d (c, ''features'') = Some (concat (map features_row (sp c)))"
    and "\<forall>c\<in>set (deleted up). d (c, ''masks'') = Some (concat (map masks_row (sp c)))"
  shows "merge it up d =
           Inr (d
             ((new, ''features'') \<mapsto>
                concat (map features_row (sorted_list_of_set (\<Union>c\<in>set (deleted up). set (sp c)))),
              (new, ''masks'') \<mapsto>
                concat (map masks_row (sorted_list_of_set (\<Union>c\<in>set (deleted up). set (sp c))))))"
proof -
  let ?all = "sorted_list_of_set (\<Union>c\<in>set (deleted up). set (sp c))"
  let ?d1 = "d((new, ''features'') \<mapsto> concat (map features_row ?all))"
  have k: "0 < n_channels it * n_features it" using assms(2,3) by simp
  have f: "merge_field up ''features'' (n_channels it * n_features it) d = Inr ?d1"
    using assms(1) k assms(4,5,6,7,9) by (rule merge_field_aligned)
  have "\<forall>c\<in>set (deleted up). ?d1 (c, ''masks'') = Some (concat (map masks_row (sp c)))"
    using assms(10) by simp
  with assms(1,2,4,5,6,8)
  have m: "merge_field up ''masks'' (n_channels it) ?d1
         = Inr (?d1((new, ''masks'') \<mapsto> concat (map masks_row ?all)))"
    by (rule merge_field_aligned)
  show ?thesis
    by (simp add: merge_def disk_fields_def f m)
qed

text \<open>
  C1. A merge update has one added cluster \<open>new\<close>. Let every deleted cluster \<open>c\<close> have the
  records \<open>sp c\<close> (no record twice, no record in two clusters), and let its stored array
  under each disk field hold, row by row, the rows of these records in the order of
  \<open>sp c\<close>. Then \<^verbatim>\<open>_merge\<close> succeeds and stores for \<open>new\<close>, under each disk field, the rows
  of all records of the deleted clusters in ascending order of record index, and leaves
  every other file as it was; so does \<^verbatim>\<open>on_cluster\<close> for a genuine merge update whenever
  it returns. Clusters with records \<open>[1, 3, 5]\<close> and \<open>[2, 4]\<close> and feature values
  \<open>[11, 13, 15]\<close> and \<open>[22, 24]\<close> merge to \<open>[11, 22, 13, 24, 15]\<close>.
\<close>

theorem merge_interleaves:
  assumes "added up = [new]"
    and "0 < n_channels it" and "0 < n_features it"
    and "\<forall>c\<in>set (deleted up). old_spikes_per_cluster up c = Some (sp c)"
    and "\<forall>c\<in>set (deleted up). distinct (sp c)"
    and "\<forall>c\<in>set (deleted up). \<forall>c'\<in>set (deleted up). c \<noteq> c' \<longrightarrow> set (sp c) \<inter> set (sp c') = {}"
    and "\<forall>s. length (features_row s) = n_channels it * n_features it"
    and "\<forall>s. length (masks_row s) = n_channels it"
    and "\<forall>c\<in>set (deleted up). disk st (c, ''features'') = Some (concat (map features_row (sp c)))"
    and "\<forall>c\<in>set (deleted up). disk st (c, ''masks'') = Some (concat (map masks_row (sp c)))"
  shows "merge it up (disk st) =
           Inr ((disk st)
             ((new, ''features'') \<mapsto>
                concat (map features_row (sorted_list_of_set (\<Union>c\<in>set (deleted up). set (sp c)))),
              (new, ''masks'') \<mapsto>
                concat (map masks_row (sorted_list_of_set (\<Union>c\<in>set (deleted up). set (sp c))))))
         \<and> (description up = ''merge'' \<and> history up = None \<and>
              on_cluster it (Some up) st = Inr st' \<longrightarrow>
              disk st' = (disk st)
               ((new, ''features'') \<mapsto>
                  concat (map features_row (sorted_list_of_set (\<Union>c\<in>set (deleted up). set (sp c)))),
                (new, ''masks'') \<mapsto>
                  concat (map masks_row (sorted_list_of_set (\<Union>c\<in>set (deleted up). set (sp c))))))"
proof -
  let ?all = "sorted_list_of_set (\<Union>c\<in>set (deleted up). set (sp c))"
  let ?d2 = "(disk st)((new, ''features'') \<mapsto> concat (map features_row ?all),
                       (new, ''masks'') \<mapsto> concat (map masks_row ?all))"
  have mg: "merge it up (disk st) = Inr ?d2"
    using assms by (rule merge_aligned)
  have "description up = ''merge'' \<and> history up = None \<and>
              on_cluster it (Some up) st = Inr st' \<longrightarrow> disk st' = ?d2"
    by (auto simp: on_cluster_def mg dest!: store_extra_fields_disk)
  with mg show ?thesis by blast
qed

theorem merge_interleaves_witness:
  "merge \<lparr>chunk_size = 10,
           model = \<lparr>n_features_per_channel = 1, channel_order = [0], model_n_spikes = 6,
                    features_masks = [], spike_clusters = [], probe_positions = [],
                    probe_n_dims = 0\<rparr>,
           cluster_ids = [0, 1], n_features = 1, n_channels = 1, n_spikes = 6, n_chunks = 1\<rparr>
         \<lparr>description = ''merge'', history = None, added = [2], deleted = [0, 1],
          descendants = [(0, 2), (1, 2)],
          old_spikes_per_cluster = [0 \<mapsto> [1, 3, 5], 1 \<mapsto> [2, 4] ],
          new_spikes_per_cluster = [2 \<mapsto> [1, 2, 3, 4, 5] ]\<rparr>
         [(0, ''features'') \<mapsto> [Fin 11, Fin 13, Fin 15], (1, ''features'') \<mapsto> [Fin 22, Fin 24],
          (0, ''masks'') \<mapsto> [Fin 1, Fin 0, Fin 1], (1, ''masks'') \<mapsto> [Fin 0, Fin 0] ]
     = Inr ([(0, ''features'') \<mapsto> [Fin 11, Fin 13, Fin 15], (1, ''features'') \<mapsto> [Fin 22, Fin 24],
          (0, ''masks'') \<mapsto> [Fin 1, Fin 0, Fin 1], (1, ''masks'') \<mapsto> [Fin 0, Fin 0],
          (2, ''features'') \<mapsto> [Fin 11, Fin 22, Fin 13, Fin 24, Fin 15],
          (2, ''masks'') \<mapsto> [Fin 1, Fin 0, Fin 0, Fin 0, Fin 1] ])"
proof -
  have u: "sorted_list_of_set ({1, 3, 5} \<union> {2, 4}) = [1, 2, 3, 4, 5::nat]"
    by code_simp
  show ?thesis
  using merge_interleaves [of
      "\<lparr>description = ''merge'', history = None, added = [2], deleted = [0, 1],
          descendants = [(0, 2), (1, 2)],
          old_spikes_per_cluster = [0 \<mapsto> [1, 3, 5], 1 \<mapsto> [2, 4] ],
          new_spikes_per_cluster = [2 \<mapsto> [1, 2, 3, 4, 5] ]\<rparr>"
      2
      "\<lparr>chunk_size = 10,
           model = \<lparr>n_features_per_channel = 1, channel_order = [0], model_n_spikes = 6,
                    features_masks = [], spike_clusters = [], probe_positions = [],
                    probe_n_dims = 0\<rparr>,
           cluster_ids = [0, 1], n_features = 1, n_channels = 1, n_spikes = 6, n_chunks = 1\<rparr>"
      "\<lambda>c. if c = 0 then [1, 3, 5] else [2, 4]"
      "\<lambda>s. [Fin (if s \<in> {1, 3, 5} then 10 + real s else 20 + real s)]"
      "\<lambda>s. [Fin (if s \<in> {1, 5} then 1 else 0)]"
      "\<lparr>disk = [(0, ''features'') \<mapsto> [Fin 11, Fin 13, Fin 15], (1, ''features'') \<mapsto> [Fin 22, Fin 24],
          (0, ''masks'') \<mapsto> [Fin 1, Fin 0, Fin 1], (1, ''masks'') \<mapsto> [Fin 0, Fin 0] ],
        disk_int = Map.empty,
        memory = \<lambda>c. \<lparr>mean_masks = None, sum_masks = None, n_unmasked_channels = None,
                       main_channels = None, mean_probe_position = None, mean_waveforms = None\<rparr>\<rparr>"]
  by (simp add: u)
qed

lemma position_of_mem:
  "x \<in> set xs \<Longrightarrow> \<exists>i. position_of x xs = Some i \<and> i < length xs \<and> xs ! i = x"
  by (induction xs) auto

lemma index_of_fancy_index:
  "set arr \<subseteq> set lookup \<Longrightarrow>
   \<exists>idx. index_of arr lookup = Inr idx \<and> fancy_index (map val lookup) idx = Inr (map val arr)"
proof (induction arr)
  case Nil
  then show ?case by (simp add: index_of_def fancy_index_def)
next
  case (Cons x arr)
  then obtain idx where idx: "index_of arr lookup = Inr idx"
      "fancy_index (map val lookup) idx = Inr (map val arr)"
    by auto
  from Cons.prems obtain i where i: "position_of x lookup = Some i" "i < length lookup"
      "lookup ! i = x"
    using position_of_mem [of x lookup] by auto
  have "index_of (x # arr) lookup = Inr (i # idx)"
    using idx(1) i(1) by (simp add: index_of_def)
  moreover have "fancy_index (map val lookup) (i # idx) = Inr (map val (x # arr))"
    using idx(2) i(2,3) by (simp add: fancy_index_def)
  ultimately show ?case by blast
qed

lemma assign_old_aligned:
  assumes "old_spikes_per_cluster up old = Some os"
    and "new_spikes_per_cluster up new = Some ns"
    and "map_of old_arrays old = Some (map val os)"
  shows "assign_old up old_arrays new old =
           Inr (old, filter (\<lambda>s. s \<in> set ns) os, map val (filter (\<lambda>s. s \<in> set ns) os))"
proof -
  have "set (filter (\<lambda>s. s \<in> set ns) os) \<subseteq> set os" by auto
  then obtain idx where "index_of (filter (\<lambda>s. s \<in> set ns) os) os = Inr idx"
      "fancy_index (map val os) idx = Inr (map val (filter (\<lambda>s. s \<in> set ns) os))"
    using index_of_fancy_index by blast
  then show ?thesis
    using assms by (simp add: assign_old_def Let_def)
qed

lemma assign_new_aligned:
  assumes "\<forall>c\<in>set dl. old_spikes_per_cluster up c = Some (sp c)"
    and "\<forall>c\<in>set dl. distinct (sp c)"
    and "\<forall>c\<in>set dl. \<forall>c'\<in>set dl. c \<noteq> c' \<longrightarrow> set (sp c) \<inter> set (sp c') = {}"
    and "new_spikes_per_cluster up new = Some ns"
    and "\<forall>(old, n)\<in>set (descendants up). n = new \<longrightarrow> old \<in> set dl"
  shows "assign_new up (map (\<lambda>c. (c, map val (sp c))) dl) new =
           Inr (map val (sorted_list_of_set
             ((\<Union>old\<in>{old. (old, new) \<in> set (descendants up)}. set (sp old)) \<inter> set ns)))"
proof -
  let ?arrays = "map (\<lambda>c. (c, map val (sp c))) dl"
  let ?ps = "map fst (filter (\<lambda>(old, n). n = new) (descendants up))"
  let ?sub = "\<lambda>old. filter (\<lambda>s. s \<in> set ns) (sp old)"
  have ps: "set ?ps = {old. (old, new) \<in> set (descendants up)}"
    by (auto simp: image_iff)
  have psd: "set ?ps \<subseteq> set dl"
    using assms(5) by auto
  have e: "map_err (assign_old up ?arrays new) ?ps
         = Inr (map (\<lambda>old. (old, ?sub old, map val (?sub old))) ?ps)"
  proof (rule map_err_Inr)
    fix x assume "x \<in> set ?ps"
    then have x: "x \<in> set dl" using psd by blast
    show "assign_old up ?arrays new x = Inr (x, ?sub x, map val (?sub x))"
      using x assms(1,4) by (intro assign_old_aligned) (simp_all add: map_of_tabulate)
  qed
  have t: "\<forall>c\<in>set ?ps. map_of (map (\<lambda>old. (old, ?sub old)) ?ps) c = Some (?sub c)"
    using map_of_tabulate [of _ ?ps ?sub] by blast
  have d: "\<forall>c\<in>set ?ps. distinct (?sub c)"
    using assms(2) psd by auto
  have j: "\<forall>c\<in>set ?ps. \<forall>c'\<in>set ?ps. c \<noteq> c' \<longrightarrow> set (?sub c) \<inter> set (?sub c') = {}"
  proof (intro ballI impI)
    fix c c' assume "c \<in> set ?ps" "c' \<in> set ?ps" "c \<noteq> c'"
    then have "set (sp c) \<inter> set (sp c') = {}" using assms(3) psd by blast
    moreover have "set (?sub c) \<subseteq> set (sp c)" "set (?sub c') \<subseteq> set (sp c')" by auto
    ultimately show "set (?sub c) \<inter> set (?sub c') = {}" by blast
  qed
  have u: "(\<Union>c\<in>set ?ps. set (?sub c))
         = (\<Union>old\<in>{old. (old, new) \<in> set (descendants up)}. set (sp old)) \<inter> set ns"
    unfolding ps by auto
  have "concatenate_per_cluster_arrays (map_of (map (\<lambda>old. (old, ?sub old)) ?ps))
          (map (\<lambda>old. (old, map val (?sub old))) ?ps)
        = Inr (map val (sorted_list_of_set (\<Union>c\<in>set ?ps. set (?sub c))))"
    using concatenate_aligned [OF t] sort_concat_sets [OF d j] by simp
  then show ?thesis
    unfolding assign_new_def Let_def e u by (simp add: comp_def)
qed

lemma assign_news_result:
  "\<forall>n\<in>set news. assign_new up old_arrays n = Inr (R n) \<Longrightarrow>
   assign_news up old_arrays name news d =
     Inr (\<lambda>key. if fst key \<in> set news \<and> snd key = name then Some (concat (R (fst key)))
                else d key)"
proof (induction news arbitrary: d)
  case Nil
  then show ?case by simp
next
  case (Cons n news)
  have "assign_news up old_arrays name news (disk_store d n name (concat (R n)) False)
      = Inr (\<lambda>key. if fst key \<in> set news \<and> snd key = name then Some (concat (R (fst key)))
                else (disk_store d n name (concat (R n)) False) key)"
    using Cons.prems by (intro Cons.IH) simp
  moreover have "(\<lambda>key. if fst key \<in> set news \<and> snd key = name then Some (concat (R (fst key)))
                else (disk_store d n name (concat (R n)) False) key)
      = (\<lambda>key. if fst key \<in> set (n # news) \<and> snd key = name then Some (concat (R (fst key)))
                else d key)"
    by (rule ext) (auto simp: disk_store_def)
  ultimately show ?case
    using Cons.prems by simp
qed


lemma assign_field_aligned:
  assumes "0 < k"
    and "\<forall>c\<in>set (deleted up). old_spikes_per_cluster up c = Some (sp c)"
    and "\<forall>c\<in>set (deleted up). distinct (sp c)"
    and "\<forall>c\<in>set (deleted up). \<forall>c'\<in>set (deleted up). c \<noteq> c' \<longrightarrow> set (sp c) \<inter> set (sp c') = {}"
    and "\<forall>n\<in>set (added up). new_spikes_per_cluster up n = Some (nsp n)"
    and "\<forall>(old, n)\<in>set (descendants up). n \<in> set (added up) \<longrightarrow> old \<in> set (deleted up)"
    and "\<forall>s. length (val s) = k"
    and "\<forall>c\<in>set (deleted up). d (c, name) = Some (concat (map val (sp c)))"
  shows "assign_field up name k d =
           Inr (\<lambda>key. if fst key \<in> set (added up) \<and> snd key = name
                 then Some (concat (map val (sorted_list_of_set
                   ((\<Union>old\<in>{old. (old, fst key) \<in> set (descendants up)}. set (sp old))
                      \<inter> set (nsp (fst key))))))
                 else d key)"
proof -
  let ?arrays = "map (\<lambda>c. (c, map val (sp c))) (deleted up)"
  let ?R = "\<lambda>n. map val (sorted_list_of_set
              ((\<Union>old\<in>{old. (old, n) \<in> set (descendants up)}. set (sp old)) \<inter> set (nsp n)))"
  have l: "load_arrays d name k (deleted up) = Inr ?arrays"
    using assms(8,1,7) by (rule load_arrays_aligned)
  have "\<forall>n\<in>set (added up). assign_new up ?arrays n = Inr (?R n)"
  proof
    fix n assume n: "n \<in> set (added up)"
    have "new_spikes_per_cluster up n = Some (nsp n)" using assms(5) n by blast
    moreover have "\<forall>(old, n')\<in>set (descendants up). n' = n \<longrightarrow> old \<in> set (deleted up)"
      using assms(6) n by blast
    ultimately show "assign_new up ?arrays n = Inr (?R n)"
      using assms(2,3,4) by (intro assign_new_aligned)
  qed
  then have "assign_news up ?arrays name (added up) d =
     Inr (\<lambda>key. if fst key \<in> set (added up) \<and> snd key = name then Some (concat (?R (fst key)))
                else d key)"
    by (rule assign_news_result)
  then show ?thesis
    by (simp add: assign_field_def l)
qed

text \<open>
  C2. Let every deleted cluster \<open>c\<close> have the records \<open>sp c\<close> (no record twice, no record
  in two clusters) and its stored array under each disk field hold the rows of these
  records in that order; let every added cluster \<open>n\<close> have the records \<open>nsp n\<close>, and let
  the descendant relation name only deleted clusters as parents of added ones. Then
  \<^verbatim>\<open>_assign\<close> succeeds and stores for every added cluster, under each disk field, the rows
  of exactly those records of its parents that are also records of the added cluster, in
  ascending order of record index, and leaves every other file as it was; \<^verbatim>\<open>on_cluster\<close>
  for a genuine assign update, whenever it returns, leaves the disk in that state.
  Splitting a cluster with records \<open>[1, 2, 3, 4, 5]\<close> into \<open>[1, 2, 3]\<close> and \<open>[4, 5]\<close> gives
  the first the first three rows and the second the last two.
\<close>

theorem assign_resplits:
  assumes "0 < n_channels it" and "0 < n_features it"
    and "\<forall>c\<in>set (deleted up). old_spikes_per_cluster up c = Some (sp c)"
    and "\<forall>c\<in>set (deleted up). distinct (sp c)"
    and "\<forall>c\<in>set (deleted up). \<forall>c'\<in>set (deleted up). c \<noteq> c' \<longrightarrow> set (sp c) \<inter> set (sp c') = {}"
    and "\<forall>n\<in>set (added up). new_spikes_per_cluster up n = Some (nsp n)"
    and "\<forall>(old, n)\<in>set (descendants up). n \<in> set (added up) \<longrightarrow> old \<in> set (deleted up)"
    and "\<forall>s. length (features_row s) = n_channels it * n_features it"
    and "\<forall>s. length (masks_row s) = n_channels it"
    and "\<forall>c\<in>set (deleted up). disk st (c, ''features'') = Some (concat (map features_row (sp c)))"
    and "\<forall>c\<in>set (deleted up). disk st (c, ''masks'') = Some (concat (map masks_row (sp c)))"
  shows "assign it up (disk st) =
           Inr (\<lambda>(c, name).
              if c \<in> set (added up) \<and> name = ''features''
              then Some (concat (map features_row (sorted_list_of_set
                     ((\<Union>old\<in>{old. (old, c) \<in> set (descendants up)}. set (sp old))
                        \<inter> set (nsp c)))))
              else if c \<in> set (added up) \<and> name = ''masks''
              then Some (concat (map masks_row (sorted_list_of_set
                     ((\<Union>old\<in>{old. (old, c) \<in> set (descendants up)}. set (sp old))
                        \<inter> set (nsp c)))))
              else disk st (c, name))
         \<and> (description up = ''assign'' \<and> history up = None \<and>
              on_cluster it (Some up) st = Inr st' \<longrightarrow> Inr (disk st') = assign it up (disk st))"
proof -
  let ?part = "\<lambda>c. sorted_list_of_set
     ((\<Union>old\<in>{old. (old, c) \<in> set (descendants up)}. set (sp old)) \<inter> set (nsp c))"
  let ?d1 = "\<lambda>key. if fst key \<in> set (added up) \<and> snd key = ''features''
                 then Some (concat (map features_row (?part (fst key)))) else disk st key"
  let ?d2 = "\<lambda>key. if fst key \<in> set (added up) \<and> snd key = ''masks''
                 then Some (concat (map masks_row (?part (fst key)))) else ?d1 key"
  have k: "0 < n_channels it * n_features it" using assms(1,2) by simp
  have f: "assign_field up ''features'' (n_channels it * n_features it) (disk st) = Inr ?d1"
    using k assms(3,4,5,6,7,8,10) by (rule assign_field_aligned)
  have "\<forall>c\<in>set (deleted up). ?d1 (c, ''masks'') = Some (concat (map masks_row (sp c)))"
    using assms(11) by simp
  with assms(1,3,4,5,6,7,9)
  have m: "assign_field up ''masks'' (n_channels it) ?d1 = Inr ?d2"
    by (rule assign_field_aligned)
  have "?d2 = (\<lambda>(c, name).
              if c \<in> set (added up) \<and> name = ''features''
              then Some (concat (map features_row (?part c)))
              else if c \<in> set (added up) \<and> name = ''masks''
              then Some (concat (map masks_row (?part c)))
              else disk st (c, name))"
    by (rule ext) (auto split: prod.splits)
  then have a: "assign it up (disk st) = Inr (\<lambda>(c, name).
              if c \<in> set (added up) \<and> name = ''features''
              then Some (concat (map features_row (?part c)))
              else if c \<in> set (added up) \<and> name = ''masks''
              then Some (concat (map masks_row (?part c)))
              else disk st (c, name))"
    by (simp add: assign_def disk_fields_def f m)
  have "description up = ''assign'' \<and> history up = None \<and>
              on_cluster it (Some up) st = Inr st' \<longrightarrow> Inr (disk st') = assign it up (disk st)"
    by (auto simp: on_cluster_def a dest!: store_extra_fields_disk)
  with a show ?thesis by blast
qed

theorem assign_resplits_witness:
  "(case assign \<lparr>chunk_size = 10,
           model = \<lparr>n_features_per_channel = 1, channel_order = [0], model_n_spikes = 6,
                    features_masks = [], spike_clusters = [], probe_positions = [],
                    probe_n_dims = 0\<rparr>,
           cluster_ids = [0], n_features = 1, n_channels = 1, n_spikes = 6, n_chunks = 1\<rparr>
         \<lparr>description = ''assign'', history = None, added = [1, 2], deleted = [0],
          descendants = [(0, 1), (0, 2)],
          old_spikes_per_cluster = [0 \<mapsto> [1, 2, 3, 4, 5] ],
          new_spikes_per_cluster = [1 \<mapsto> [1, 2, 3], 2 \<mapsto> [4, 5] ]\<rparr>
         [(0, ''features'') \<mapsto> [Fin 11, Fin 12, Fin 13, Fin 14, Fin 15],
          (0, ''masks'') \<mapsto> [Fin 1, Fin 0, Fin 1, Fin 0, Fin 1] ] of
      Inl e \<Rightarrow> []
    | Inr d' \<Rightarrow> [d' (1, ''features''), d' (2, ''features''), d' (1, ''masks''),
                 d' (2, ''masks''), d' (0, ''features'')])
   = [Some [Fin 11, Fin 12, Fin 13], Some [Fin 14, Fin 15], Some [Fin 1, Fin 0, Fin 1],
      Some [Fin 0, Fin 1], Some [Fin 11, Fin 12, Fin 13, Fin 14, Fin 15] ]"
proof -
  have u: "sorted_list_of_set ({1, 2, 3, 4, 5} \<inter> {1, 2, 3}) = [1, 2, 3::nat]"
    "sorted_list_of_set ({1, 2, 3, 4, 5} \<inter> {4, 5}) = [4, 5::nat]"
    by code_simp+
  have p: "{old. old = 0} = {0::nat}" by auto
  show ?thesis
  using assign_resplits [of
      "\<lparr>chunk_size = 10,
           model = \<lparr>n_features_per_channel = 1, channel_order = [0], model_n_spikes = 6,
                    features_masks = [], spike_clusters = [], probe_positions = [],
                    probe_n_dims = 0\<rparr>,
           cluster_ids = [0], n_features = 1, n_channels = 1, n_spikes = 6, n_chunks = 1\<rparr>"
      "\<lparr>description = ''assign'', history = None, added = [1, 2], deleted = [0],
          descendants = [(0, 1), (0, 2)],
          old_spikes_per_cluster = [0 \<mapsto> [1, 2, 3, 4, 5] ],
          new_spikes_per_cluster = [1 \<mapsto> [1, 2, 3], 2 \<mapsto> [4, 5] ]\<rparr>"
      "\<lambda>c. [1, 2, 3, 4, 5]"
      "\<lambda>n. if n = 1 then [1, 2, 3] else [4, 5]"
      "\<lambda>s. [Fin (10 + real s)]"
      "\<lambda>s. [Fin (if s \<in> {1, 3, 5} then 1 else 0)]"
      "\<lparr>disk = [(0, ''features'') \<mapsto> [Fin 11, Fin 12, Fin 13, Fin 14, Fin 15],
                (0, ''masks'') \<mapsto> [Fin 1, Fin 0, Fin 1, Fin 0, Fin 1] ],
        disk_int = Map.empty,
        memory = \<lambda>c. \<lparr>mean_masks = None, sum_masks = None, n_unmasked_channels = None,
                       main_channels = None, mean_probe_position = None, mean_waveforms = None\<rparr>\<rparr>"]
  by (simp add: u p)
qed


section \<open>Undo and redo\<close>

text \<open>
  C4. When \<^verbatim>\<open>on_cluster\<close> is called without an update, or with an update whose
  \<^verbatim>\<open>history\<close> marks an undo or a redo, it returns with the store unchanged: the
  disk files and the memory entries are those from before the call. This holds for the
  features-and-masks item and for the waveforms item.
\<close>

theorem replay_noop:
  "(up = None \<or> (\<exists>u. up = Some u \<and> history u \<noteq> None)) \<longrightarrow>
     on_cluster it up st = Inr st \<and> waveforms_on_cluster w up st = Inr st"
  by (auto simp: on_cluster_def waveforms_on_cluster_def)

theorem replay_noop_witness:
  "on_cluster
      \<lparr>chunk_size = 10,
       model = \<lparr>n_features_per_channel = 1, channel_order = [0], model_n_spikes = 2,
                features_masks = [], spike_clusters = [0, 1], probe_positions = [ [Fin 0] ],
                probe_n_dims = 1\<rparr>,
       cluster_ids = [0, 1], n_features = 1, n_channels = 1, n_spikes = 2, n_chunks = 1\<rparr>
      (Some \<lparr>description = ''merge'', history = Some ''undo'', added = [2], deleted = [0, 1],
          descendants = [(0, 2), (1, 2)],
          old_spikes_per_cluster = [0 \<mapsto> [0], 1 \<mapsto> [1] ],
          new_spikes_per_cluster = [2 \<mapsto> [0, 1] ]\<rparr>)
      \<lparr>disk = [(0, ''features'') \<mapsto> [Fin 5], (0, ''masks'') \<mapsto> [Fin 1],
               (1, ''features'') \<mapsto> [Fin 7], (1, ''masks'') \<mapsto> [Fin 1] ],
       disk_int = Map.empty, memory = \<lambda>c. empty_entry\<rparr>
    = Inr \<lparr>disk = [(0, ''features'') \<mapsto> [Fin 5], (0, ''masks'') \<mapsto> [Fin 1],
               (1, ''features'') \<mapsto> [Fin 7], (1, ''masks'') \<mapsto> [Fin 1] ],
       disk_int = Map.empty, memory = \<lambda>c. empty_entry\<rparr>
   \<and> waveforms_on_cluster
      \<lparr>wf_n_channels = 1, wf_n_samples = 1, subset_spikes_clusters = (\<lambda>cs. [0, 1]),
       waveforms = [ [Fin 1], [Fin 2] ]\<rparr>
      (Some \<lparr>description = ''merge'', history = Some ''undo'', added = [2], deleted = [0, 1],
          descendants = [(0, 2), (1, 2)],
          old_spikes_per_cluster = [0 \<mapsto> [0], 1 \<mapsto> [1] ],
          new_spikes_per_cluster = [2 \<mapsto> [0, 1] ]\<rparr>)
      \<lparr>disk = [(0, ''features'') \<mapsto> [Fin 5], (0, ''masks'') \<mapsto> [Fin 1],
               (1, ''features'') \<mapsto> [Fin 7], (1, ''masks'') \<mapsto> [Fin 1] ],
       disk_int = Map.empty, memory = \<lambda>c. empty_entry\<rparr>
    = Inr \<lparr>disk = [(0, ''features'') \<mapsto> [Fin 5], (0, ''masks'') \<mapsto> [Fin 1],
               (1, ''features'') \<mapsto> [Fin 7], (1, ''masks'') \<mapsto> [Fin 1] ],
       disk_int = Map.empty, memory = \<lambda>c. empty_entry\<rparr>
   \<and> waveforms_on_cluster
      \<lparr>wf_n_channels = 1, wf_n_samples = 1, subset_spikes_clusters = (\<lambda>cs. [0, 1]),
       waveforms = [ [Fin 1], [Fin 2] ]\<rparr>
      None
      \<lparr>disk = [(0, ''features'') \<mapsto> [Fin 5], (0, ''masks'') \<mapsto> [Fin 1],
               (1, ''features'') \<mapsto> [Fin 7], (1, ''masks'') \<mapsto> [Fin 1] ],
       disk_int = Map.empty, memory = \<lambda>c. empty_entry\<rparr>
    = Inr \<lparr>disk = [(0, ''features'') \<mapsto> [Fin 5], (0, ''masks'') \<mapsto> [Fin 1],
               (1, ''features'') \<mapsto> [Fin 7], (1, ''masks'') \<mapsto> [Fin 1] ],
       disk_int = Map.empty, memory = \<lambda>c. empty_entry\<rparr>"
proof -
  let ?st = "\<lparr>disk = [(0, ''features'') \<mapsto> [Fin 5], (0, ''masks'') \<mapsto> [Fin 1],
               (1, ''features'') \<mapsto> [Fin 7], (1, ''masks'') \<mapsto> [Fin 1] ],
       disk_int = Map.empty, memory = \<lambda>c. empty_entry\<rparr>"
  let ?u = "\<lparr>description = ''merge'', history = Some ''undo'', added = [2], deleted = [0, 1],
          descendants = [(0, 2), (1, 2)],
          old_spikes_per_cluster = [0 \<mapsto> [0], 1 \<mapsto> [1] ],
          new_spikes_per_cluster = [2 \<mapsto> [0, 1] ]\<rparr>"
  let ?it = "\<lparr>chunk_size = 10,
       model = \<lparr>n_features_per_channel = 1, channel_order = [0], model_n_spikes = 2,
                features_masks = [], spike_clusters = [0, 1], probe_positions = [ [Fin 0] ],
                probe_n_dims = 1\<rparr>,
       cluster_ids = [0, 1], n_features = 1, n_channels = 1, n_spikes = 2, n_chunks = 1\<rparr>"
  let ?w = "\<lparr>wf_n_channels = 1, wf_n_samples = 1, subset_spikes_clusters = (\<lambda>cs. [0, 1]),
       waveforms = [ [Fin 1], [Fin 2] ]\<rparr>"
  have "on_cluster ?it (Some ?u) ?st = Inr ?st \<and> waveforms_on_cluster ?w (Some ?u) ?st = Inr ?st"
    using replay_noop [of "Some ?u" ?it ?st ?w] by simp
  moreover have "waveforms_on_cluster ?w None ?st = Inr ?st"
    using replay_noop [of None ?it ?st ?w] by simp
  ultimately show ?thesis by simp
qed

section \<open>Which clusters get statistics\<close>

lemma store_extra_fields_cluster_memory:
  "store_extra_fields_cluster it c st = Inr st' \<Longrightarrow>
     has_extra_fields it (disk st) c (memory st' c) \<and>
     (\<forall>c'. c' \<noteq> c \<longrightarrow> memory st' c' = memory st c')"
  by (auto simp: store_extra_fields_cluster_def has_extra_fields_def Let_def split: sum.splits)

lemma store_extra_fields_memory:
  "store_extra_fields it cs st = Inr st' \<Longrightarrow>
     (\<forall>c\<in>set cs. has_extra_fields it (disk st) c (memory st' c)) \<and>
     (\<forall>c. c \<notin> set cs \<longrightarrow> memory st' c = memory st c)"
proof (induction cs arbitrary: st)
  case Nil
  then show ?case by simp
next
  case (Cons c cs)
  from Cons.prems obtain st1 where
    st1: "store_extra_fields_cluster it c st = Inr st1" "store_extra_fields it cs st1 = Inr st'"
    by (auto split: sum.splits)
  have d1: "disk st1 = disk st"
    using st1(1) by (rule store_extra_fields_cluster_disk)
  have m1: "has_extra_fields it (disk st) c (memory st1 c)"
      "\<forall>c'. c' \<noteq> c \<longrightarrow> memory st1 c' = memory st c'"
    using store_extra_fields_cluster_memory [OF st1(1)] by auto
  have ih: "\<forall>c\<in>set cs. has_extra_fields it (disk st) c (memory st' c)"
      "\<forall>c. c \<notin> set cs \<longrightarrow> memory st' c = memory st1 c"
    using Cons.IH [OF st1(2)] d1 by auto
  show ?case
  proof (intro conjI ballI allI impI)
    fix x assume "x \<in> set (c # cs)"
    then show "has_extra_fields it (disk st) x (memory st' x)"
      using ih m1(1) by (cases "x \<in> set cs") auto
  next
    fix x assume "x \<notin> set (c # cs)"
    then show "memory st' x = memory st x"
      using ih(2) m1(2) by auto
  qed
qed

text \<open>
  C6. A \<^verbatim>\<open>store_all_clusters\<close> call that returns has derived the extra fields, from the
  masks on the disk it leaves, for every cluster of \<^verbatim>\<open>cluster_ids\<close>, also when nothing is
  to be generated, in which case the disk is unchanged; the memory entries of all other
  clusters are unchanged. An \<^verbatim>\<open>on_cluster\<close> call for a genuine update that returns has
  derived them for the added clusters, and the memory entries of all other clusters are
  unchanged.
\<close>

theorem statistics_scope:
  "(store_all_clusters it clusters_to_generate st = Inr st' \<longrightarrow>
      (\<forall>c\<in>set (cluster_ids it). has_extra_fields it (disk st') c (memory st' c)) \<and>
      (\<forall>c. c \<notin> set (cluster_ids it) \<longrightarrow> memory st' c = memory st c) \<and>
      (clusters_to_generate = [] \<longrightarrow> disk st' = disk st))
   \<and> (history u = None \<and> on_cluster it (Some u) st = Inr st'' \<longrightarrow>
      (\<forall>c\<in>set (added u). has_extra_fields it (disk st'') c (memory st'' c)) \<and>
      (\<forall>c. c \<notin> set (added u) \<longrightarrow> memory st'' c = memory st c))"
proof -
  have a: "store_all_clusters it clusters_to_generate st = Inr st' \<longrightarrow>
      (\<forall>c\<in>set (cluster_ids it). has_extra_fields it (disk st') c (memory st' c)) \<and>
      (\<forall>c. c \<notin> set (cluster_ids it) \<longrightarrow> memory st' c = memory st c) \<and>
      (clusters_to_generate = [] \<longrightarrow> disk st' = disk st)"
  proof
    assume r: "store_all_clusters it clusters_to_generate st = Inr st'"
    then obtain d where d: "store_extra_fields it (cluster_ids it) (st\<lparr>disk := d\<rparr>) = Inr st'"
      and e: "clusters_to_generate = [] \<longrightarrow> d = disk st"
      by (auto simp: store_all_clusters_def Let_def split: sum.splits if_splits)
    have "disk st' = d"
      using store_extra_fields_disk [OF d] by simp
    then show "(\<forall>c\<in>set (cluster_ids it). has_extra_fields it (disk st') c (memory st' c)) \<and>
      (\<forall>c. c \<notin> set (cluster_ids it) \<longrightarrow> memory st' c = memory st c) \<and>
      (clusters_to_generate = [] \<longrightarrow> disk st' = disk st)"
      using store_extra_fields_memory [OF d] e by simp
  qed
  have b: "history u = None \<and> on_cluster it (Some u) st = Inr st'' \<longrightarrow>
      (\<forall>c\<in>set (added u). has_extra_fields it (disk st'') c (memory st'' c)) \<and>
      (\<forall>c. c \<notin> set (added u) \<longrightarrow> memory st'' c = memory st c)"
  proof
    assume r: "history u = None \<and> on_cluster it (Some u) st = Inr st''"
    then obtain d where d: "store_extra_fields it (added u) (st\<lparr>disk := d\<rparr>) = Inr st''"
      by (auto simp: on_cluster_def split: sum.splits)
    have "disk st'' = d"
      using store_extra_fields_disk [OF d] by simp
    then show "(\<forall>c\<in>set (added u). has_extra_fields it (disk st'') c (memory st'' c)) \<and>
      (\<forall>c. c \<notin> set (added u) \<longrightarrow> memory st'' c = memory st c)"
      using store_extra_fields_memory [OF d] by simp
  qed
  from a b show ?thesis by blast
qed


lemma upt_2: "[0..<2] = [0, 1]"
  by (simp add: upt_rec numeral_nat)

lemma example_load:
  "d (c, ''masks'') = Some [Fin 1, Fin 0, Fin 1, Fin 1] \<Longrightarrow>
   disk_load d c ''masks'' 2 = Inr [ [Fin 1, Fin 0], [Fin 1, Fin 1] ]"
  by (simp add: disk_load_def reshape_rows_def upt_2)

lemma example_sum_masks: "sum_masks_of 2 [ [Fin 1, Fin 0], [Fin 1, Fin 1] ] = [Fin 2, Fin 1]"
  by (simp add: sum_masks_of_def sum_axis0_def upt_2)

lemma example_mean_masks: "mean_masks_of 2 [ [Fin 1, Fin 0], [Fin 1, Fin 1] ] = [Fin 1, Fin (1 / 2)]"
  by (simp add: mean_masks_of_def example_sum_masks)

lemma example_unmasked: "unmasked_channels_of [Fin 1, Fin (1 / 2)] = [0, 1]"
  by (simp add: unmasked_channels_of_def nonzero_gt_def upt_2)

lemma example_n_unmasked: "n_unmasked_channels_of [Fin 1, Fin (1 / 2)] = 2"
  by (simp add: n_unmasked_channels_of_def example_unmasked)

lemma example_main_channels: "main_channels_of [Fin 1, Fin (1 / 2)] = [0, 1]"
  by (simp add: main_channels_of_def example_unmasked argsort_def upt_2)

lemma example_probe_position:
  "mean_probe_position_of [ [Fin 0, Fin 0], [Fin 0, Fin 2] ] 2 [Fin 1, Fin (1 / 2)]
    = Inr [Fin 0, Fin (1 / 2)]"
  by (simp add: mean_probe_position_of_def broadcast_mul_def mean_axis0_def sum_axis0_def upt_2)

lemma example_extra_fields:
  assumes "n_channels it = 2"
    and "probe_positions (model it) = [ [Fin 0, Fin 0], [Fin 0, Fin 2] ]"
    and "probe_n_dims (model it) = 2"
    and "disk st (c, ''masks'') = Some [Fin 1, Fin 0, Fin 1, Fin 1]"
  shows "store_extra_fields it [c] st =
     Inr (st\<lparr>memory := (memory st)
        (c := (memory st c)
           \<lparr>mean_masks := Some [Fin 1, Fin (1 / 2)],
            sum_masks := Some [Fin 2, Fin 1],
            n_unmasked_channels := Some 2,
            main_channels := Some [0, 1],
            mean_probe_position := Some [Fin 0, Fin (1 / 2)]\<rparr>)\<rparr>)"
  using assms
  by (simp add: store_extra_fields_cluster_def example_load example_sum_masks
      example_mean_masks example_n_unmasked example_main_channels example_probe_position)

theorem statistics_scope_witness:
  "(case store_all_clusters
      \<lparr>chunk_size = 10,
       model = \<lparr>n_features_per_channel = 1, channel_order = [0, 1], model_n_spikes = 2,
                features_masks = [], spike_clusters = [0, 0],
                probe_positions = [ [Fin 0, Fin 0], [Fin 0, Fin 2] ], probe_n_dims = 2\<rparr>,
       cluster_ids = [0], n_features = 1, n_channels = 2, n_spikes = 2, n_chunks = 1\<rparr>
      []
      \<lparr>disk = [(0, ''masks'') \<mapsto> [Fin 1, Fin 0, Fin 1, Fin 1] ], disk_int = Map.empty,
       memory = \<lambda>c. empty_entry\<rparr> of
      Inl e \<Rightarrow> False
    | Inr st' \<Rightarrow>
        n_unmasked_channels (memory st' 0) = Some 2 \<and> memory st' 1 = empty_entry \<and>
        disk st' = [(0, ''masks'') \<mapsto> [Fin 1, Fin 0, Fin 1, Fin 1] ])
   \<and> (case on_cluster
      \<lparr>chunk_size = 10,
       model = \<lparr>n_features_per_channel = 1, channel_order = [0, 1], model_n_spikes = 2,
                features_masks = [], spike_clusters = [0, 0],
                probe_positions = [ [Fin 0, Fin 0], [Fin 0, Fin 2] ], probe_n_dims = 2\<rparr>,
       cluster_ids = [0], n_features = 1, n_channels = 2, n_spikes = 2, n_chunks = 1\<rparr>
      (Some \<lparr>description = ''merge'', history = None, added = [2], deleted = [0, 1],
          descendants = [(0, 2), (1, 2)],
          old_spikes_per_cluster = [0 \<mapsto> [0], 1 \<mapsto> [1] ],
          new_spikes_per_cluster = [2 \<mapsto> [0, 1] ]\<rparr>)
      \<lparr>disk = [(0, ''features'') \<mapsto> [Fin 5, Fin 6], (0, ''masks'') \<mapsto> [Fin 1, Fin 0],
               (1, ''features'') \<mapsto> [Fin 7, Fin 8], (1, ''masks'') \<mapsto> [Fin 1, Fin 1] ],
       disk_int = Map.empty, memory = \<lambda>c. empty_entry\<rparr> of
      Inl e \<Rightarrow> False
    | Inr st'' \<Rightarrow>
        n_unmasked_channels (memory st'' 2) = Some 2 \<and>
        memory st'' 0 = empty_entry \<and> memory st'' 1 = empty_entry)"
proof -
  let ?it = "\<lparr>chunk_size = 10,
       model = \<lparr>n_features_per_channel = 1, channel_order = [0, 1], model_n_spikes = 2,
                features_masks = [], spike_clusters = [0, 0],
                probe_positions = [ [Fin 0, Fin 0], [Fin 0, Fin 2] ], probe_n_dims = 2\<rparr>,
       cluster_ids = [0], n_features = 1, n_channels = 2, n_spikes = 2, n_chunks = 1\<rparr>"
  let ?sta = "\<lparr>disk = [(0, ''masks'') \<mapsto> [Fin 1, Fin 0, Fin 1, Fin 1] ], disk_int = Map.empty,
       memory = \<lambda>c. empty_entry\<rparr>"
  let ?u = "\<lparr>description = ''merge'', history = None, added = [2], deleted = [0, 1],
          descendants = [(0, 2), (1, 2)],
          old_spikes_per_cluster = [0 \<mapsto> [0], 1 \<mapsto> [1] ],
          new_spikes_per_cluster = [2 \<mapsto> [0, 1] ]\<rparr>"
  let ?db = "[(0, ''features'') \<mapsto> [Fin 5, Fin 6], (0, ''masks'') \<mapsto> [Fin 1, Fin 0],
               (1, ''features'') \<mapsto> [Fin 7, Fin 8], (1, ''masks'') \<mapsto> [Fin 1, Fin 1] ]"
  let ?stb = "\<lparr>disk = ?db, disk_int = Map.empty, memory = \<lambda>c. empty_entry\<rparr>"
  let ?e = "empty_entry\<lparr>mean_masks := Some [Fin 1, Fin (1 / 2)],
            sum_masks := Some [Fin 2, Fin 1],
            n_unmasked_channels := Some 2,
            main_channels := Some [0, 1],
            mean_probe_position := Some [Fin 0, Fin (1 / 2)]\<rparr>"
  let ?sta' = "?sta\<lparr>memory := (\<lambda>c. empty_entry)(0 := ?e)\<rparr>"
  let ?db' = "?db((2, ''features'') \<mapsto> [Fin 5, Fin 6, Fin 7, Fin 8],
                  (2, ''masks'') \<mapsto> [Fin 1, Fin 0, Fin 1, Fin 1])"
  let ?stb' = "\<lparr>disk = ?db', disk_int = Map.empty, memory = (\<lambda>c. empty_entry)(2 := ?e)\<rparr>"
  have ra: "store_all_clusters ?it [] ?sta = Inr ?sta'"
    using example_extra_fields [of ?it ?sta 0]
    by (simp add: store_all_clusters_def del: store_extra_fields.simps)
  have u: "sorted_list_of_set ({0} \<union> {1}) = [0, 1::nat]"
    by code_simp
  have mg: "merge ?it ?u ?db = Inr ?db'"
    using merge_aligned [of ?u 2 ?it "\<lambda>c. [c]"
        "\<lambda>s. if s = 0 then [Fin 5, Fin 6] else [Fin 7, Fin 8]"
        "\<lambda>s. if s = 0 then [Fin 1, Fin 0] else [Fin 1, Fin 1]" ?db]
    by (simp add: u)
  have rb: "on_cluster ?it (Some ?u) ?stb = Inr ?stb'"
    using example_extra_fields [of ?it "?stb\<lparr>disk := ?db'\<rparr>" 2] mg
    by (simp add: on_cluster_def del: store_extra_fields.simps)
  have a: "n_unmasked_channels (memory ?sta' 0) = Some 2 \<and> memory ?sta' 1 = empty_entry \<and>
        disk ?sta' = [(0, ''masks'') \<mapsto> [Fin 1, Fin 0, Fin 1, Fin 1] ]"
    using statistics_scope [of ?it "[]" ?sta ?sta' ?u ?sta'] ra
    by simp
  have b: "n_unmasked_channels (memory ?stb' 2) = Some 2 \<and>
        memory ?stb' 0 = empty_entry \<and> memory ?stb' 1 = empty_entry"
    using statistics_scope [of ?it "[]" ?stb ?sta' ?u ?stb'] rb
    by simp
  show ?thesis
    using ra rb a b by simp
qed

section \<open>Bulk generation in chunks\<close>

lemma slice_map_nth: "slice a b xs = map ((!) xs) [a..<min b (length xs)]"
proof (rule nth_equalityI)
  show "length (slice a b xs) = length (map ((!) xs) [a..<min b (length xs)])"
    by (auto simp: slice_def)
next
  fix i assume "i < length (slice a b xs)"
  then have i: "a + i < b" "a + i < length xs" by (auto simp: slice_def)
  then have "i < b - a" "i < length [a..<min b (length xs)]" by auto
  then have "take (b - a) (drop a xs) ! i = xs ! (a + i)"
    and "map ((!) xs) [a..<min b (length xs)] ! i = xs ! (a + i)"
    using i by (simp_all add: min_def)
  then show "slice a b xs ! i = map ((!) xs) [a..<min b (length xs)] ! i"
    by (simp add: slice_def)
qed

lemma zip_upt_map:
  "e \<le> b \<Longrightarrow> zip [a..<b] (map f [a..<e]) = map (\<lambda>s. (s, f s)) [a..<e]"
  by (rule nth_equalityI) auto

lemma fst_filter_tagged:
  "map fst (filter (\<lambda>p. snd p = c) (map (\<lambda>s. (s, f s)) xs)) = filter (\<lambda>s. f s = c) xs"
  by (induction xs) auto

lemma spikes_per_cluster_chunk:
  "spikes_per_cluster [a..<b] (slice a b clu) =
     map (\<lambda>c. (c, cluster_spikes clu c a (min b (length clu))))
       (remdups (map ((!) clu) [a..<min b (length clu)]))"
proof -
  have z: "zip [a..<b] (slice a b clu) = map (\<lambda>s. (s, clu ! s)) [a..<min b (length clu)]"
    unfolding slice_map_nth by (rule zip_upt_map) simp
  show ?thesis
    unfolding spikes_per_cluster_def z Let_def cluster_spikes_def
    by (simp add: fst_filter_tagged comp_def)
qed

lemma cluster_spikes_nonempty:
  "cluster_spikes clu c lo hi \<noteq> [] \<longleftrightarrow> c \<in> set (map ((!) clu) [lo..<hi])"
  by (auto simp: cluster_spikes_def filter_empty_conv)

lemma chunk_keys:
  "set (map fst (spikes_per_cluster [a..<b] (slice a b clu))) = set (slice a b clu)"
  unfolding spikes_per_cluster_chunk by (simp add: comp_def slice_map_nth)

lemma chunk_lookup:
  "c \<in> set (slice a b clu) \<Longrightarrow>
   map_of (spikes_per_cluster [a..<b] (slice a b clu)) c
     = Some (cluster_spikes clu c a (min b (length clu)))"
  unfolding spikes_per_cluster_chunk
  by (rule map_of_tabulate) (simp add: slice_map_nth)

lemma position_of_prefix:
  "x \<in> set pre \<Longrightarrow>
   \<exists>i. position_of x (pre @ post) = Some i \<and> i < length pre \<and> pre ! i = x"
  by (induction pre) auto

lemma index_of_prefix:
  "set arr \<subseteq> set pre \<Longrightarrow>
   \<exists>idx. index_of arr (pre @ post) = Inr idx \<and>
     fancy_index (map val pre) idx = Inr (map val arr)"
proof (induction arr)
  case Nil
  then show ?case by (simp add: index_of_def fancy_index_def)
next
  case (Cons x arr)
  then obtain idx where idx: "index_of arr (pre @ post) = Inr idx"
      "fancy_index (map val pre) idx = Inr (map val arr)"
    by auto
  from Cons.prems obtain i where i: "position_of x (pre @ post) = Some i" "i < length pre"
      "pre ! i = x"
    using position_of_prefix [of x pre post] by auto
  have "index_of (x # arr) (pre @ post) = Inr (i # idx)"
    using idx(1) i(1) by (simp add: index_of_def)
  moreover have "fancy_index (map val pre) (i # idx) = Inr (map val (x # arr))"
    using idx(2) i(2,3) by (simp add: fancy_index_def)
  ultimately show ?case by blast
qed

lemma length_every_nth: "0 < n \<Longrightarrow> length (every_nth n xs) = (length xs + n - 1) div n"
  by (simp add: every_nth_def)


lemma init_fields:
  "init_feature_masks m ids cs = Inr it \<Longrightarrow>
     0 < cs \<and> chunk_size it = cs \<and> model it = m \<and> cluster_ids it = ids \<and>
     n_features it = n_features_per_channel m \<and> n_channels it = length (channel_order m) \<and>
     n_spikes it = model_n_spikes m \<and> n_chunks it = model_n_spikes m div cs + 1"
  by (auto simp: init_feature_masks_def split: if_splits)

lemma ceil_div_rows: "0 < nf \<Longrightarrow> (nc * nf + nf - 1) div nf = (nc::nat)"
proof -
  assume nf: "0 < nf"
  then have "nc * nf + nf - 1 = nc * nf + (nf - 1)" by simp
  moreover have "(nc * nf + (nf - 1)) div nf = nc + (nf - 1) div nf"
    using nf by (intro div_mult_self3) simp
  moreover have "(nf - 1) div nf = 0" using nf by simp
  ultimately show ?thesis by simp
qed

lemma length_masks_row:
  assumes "0 < nf" and "nc * nf \<le> length row"
  shows "length (every_nth nf (map snd (take (nc * nf) row))) = nc"
proof -
  have "length (map snd (take (nc * nf) row)) = nc * nf"
    using assms(2) by simp
  then have "length (every_nth nf (map snd (take (nc * nf) row))) = (nc * nf + nf - 1) div nf"
    using length_every_nth [OF assms(1)] by metis
  then show ?thesis
    using ceil_div_rows [OF assms(1)] by metis
qed

lemma store_cluster_chunk:
  assumes init: "init_feature_masks m ids cs = Inr it"
    and wf: "well_formed m"
    and c: "c \<in> set (slice a b (spike_clusters m))"
    and ab: "a \<le> b"
  shows "store_cluster it c [a..<b]
           (spikes_per_cluster [a..<b] (slice a b (spike_clusters m)))
           (slice a b (features_masks m)) d
         = Inr (disk_store
             (disk_store d c ''features''
                (concat (map (field_row m ''features'')
                   (cluster_spikes (spike_clusters m) c a (min b (model_n_spikes m))))) True)
             c ''masks''
             (concat (map (field_row m ''masks'')
                (cluster_spikes (spike_clusters m) c a (min b (model_n_spikes m))))) True)"
proof -
  let ?n = "model_n_spikes m"
  let ?e = "min b ?n"
  let ?S = "cluster_spikes (spike_clusters m) c a ?e"
  let ?nc = "length (channel_order m)"
  let ?nf = "n_features_per_channel m"
  let ?fm = "features_masks m"
  have len: "length ?fm = ?n" "length (spike_clusters m) = ?n" and nf: "0 < ?nf"
    and rows: "\<forall>row\<in>set ?fm. ?nc * ?nf \<le> length row"
    using wf by (auto simp: well_formed_def list_all_iff)
  have it: "n_channels it = ?nc" "n_features it = ?nf"
    using init_fields [OF init] by auto
  have look: "map_of (spikes_per_cluster [a..<b] (slice a b (spike_clusters m))) c = Some ?S"
    using chunk_lookup [OF c] len by simp
  have "slice a b (spike_clusters m) \<noteq> []" using c by auto
  then have "[a..<min b (length (spike_clusters m))] \<noteq> []"
    unfolding slice_map_nth by simp
  then have "\<not> min b (length (spike_clusters m)) \<le> a"
    unfolding upt_eq_Nil_conv by blast
  then have ae: "a < ?e"
    unfolding len by (rule not_le_imp_less)
  have "[a..<?e + (b - ?e)] = [a..<?e] @ [?e..<?e + (b - ?e)]"
    using ae by (intro upt_add_eq_append) simp
  then have split: "[a..<b] = [a..<?e] @ [?e..<b]"
    by simp
  have sl: "slice a b ?fm = map ((!) ?fm) [a..<?e]"
    using slice_map_nth [of a b ?fm] len by simp
  have sub: "set ?S \<subseteq> set [a..<?e]"
    by (auto simp: cluster_spikes_def)
  obtain idx where idx: "index_of ?S [a..<b] = Inr idx"
      "fancy_index (slice a b ?fm) idx = Inr (map ((!) ?fm) ?S)"
    using index_of_prefix [OF sub, of "[?e..<b]" "(!) ?fm"] split sl by auto
  have inrange: "\<forall>s\<in>set ?S. ?fm ! s \<in> set ?fm"
    using sub len by auto
  have f: "map (\<lambda>row. map fst (take (?nc * ?nf) row)) (map ((!) ?fm) ?S)
         = map (field_row m ''features'') ?S"
    by (simp add: field_row_def)
  have mk: "map (\<lambda>row. every_nth ?nf (map snd (take (?nc * ?nf) row))) (map ((!) ?fm) ?S)
         = map (field_row m ''masks'') ?S"
    by (simp add: field_row_def)
  have fs: "has_shape (map (field_row m ''features'') ?S) (length ?S) (?nc * ?nf)"
    using inrange rows by (auto simp: has_shape_def list_all_iff field_row_def)
  have ms: "has_shape (map (field_row m ''masks'') ?S) (length ?S) ?nc"
    using inrange rows nf
    by (auto simp: has_shape_def list_all_iff field_row_def length_masks_row)
  show ?thesis
    unfolding store_cluster_def Let_def it look
    using idx nf fs ms by (simp add: f mk del: map_map)
qed

lemma store_clusters_effect:
  assumes "distinct L"
    and "\<forall>c\<in>set L. \<forall>d0. store_cluster it c sp spc cfm d0 =
           Inr (disk_store (disk_store d0 c ''features'' (F c) True) c ''masks'' (M c) True)"
  shows "store_clusters it L sp spc cfm d =
           Inr (\<lambda>(c, name).
             if c \<in> set L \<and> (name = ''features'' \<or> name = ''masks'')
             then Some ((case d (c, name) of None \<Rightarrow> [] | Some old \<Rightarrow> old) @
                        (if name = ''features'' then F c else M c))
             else d (c, name))"
  using assms
proof (induction L arbitrary: d)
  case Nil
  then show ?case by simp
next
  case (Cons c L)
  let ?d1 = "disk_store (disk_store d c ''features'' (F c) True) c ''masks'' (M c) True"
  have step: "store_cluster it c sp spc cfm d = Inr ?d1"
    using Cons.prems(2) by simp
  have ih: "store_clusters it L sp spc cfm ?d1 =
           Inr (\<lambda>(c', name).
             if c' \<in> set L \<and> (name = ''features'' \<or> name = ''masks'')
             then Some ((case ?d1 (c', name) of None \<Rightarrow> [] | Some old \<Rightarrow> old) @
                        (if name = ''features'' then F c' else M c'))
             else ?d1 (c', name))"
    using Cons.prems by (intro Cons.IH) auto
  have notin: "c \<notin> set L" using Cons.prems(1) by simp
  have "(\<lambda>(c', name).
             if c' \<in> set L \<and> (name = ''features'' \<or> name = ''masks'')
             then Some ((case ?d1 (c', name) of None \<Rightarrow> [] | Some old \<Rightarrow> old) @
                        (if name = ''features'' then F c' else M c'))
             else ?d1 (c', name))
      = (\<lambda>(c', name).
             if c' \<in> set (c # L) \<and> (name = ''features'' \<or> name = ''masks'')
             then Some ((case d (c', name) of None \<Rightarrow> [] | Some old \<Rightarrow> old) @
                        (if name = ''features'' then F c' else M c'))
             else d (c', name))"
    using notin by (auto simp: fun_eq_iff disk_store_def)
  then show ?case
    using step ih by simp
qed


lemma set_chunk_clusters:
  "set (chunk_clusters spc gen) = set (map fst spc) \<inter> set gen"
  by (simp add: chunk_clusters_def)

lemma store_chunk_effect:
  assumes init: "init_feature_masks m ids cs = Inr it"
    and wf: "well_formed m"
  shows "store_chunk it gen i d =
           Inr (generated m gen (i * cs) (min ((i + 1) * cs) (model_n_spikes m)) d)"
proof -
  let ?a = "i * cs" and ?b = "(i + 1) * cs"
  let ?n = "model_n_spikes m"
  let ?clu = "spike_clusters m"
  let ?spc = "spikes_per_cluster [?a..<?b] (slice ?a ?b ?clu)"
  let ?L = "chunk_clusters ?spc gen"
  let ?S = "\<lambda>c. cluster_spikes ?clu c ?a (min ?b ?n)"
  let ?F = "\<lambda>c. concat (map (field_row m ''features'') (?S c))"
  let ?M = "\<lambda>c. concat (map (field_row m ''masks'') (?S c))"
  have it: "chunk_size it = cs" "model it = m"
    using init_fields [OF init] by auto
  have len: "length ?clu = ?n"
    using wf by (simp add: well_formed_def)
  have L: "set ?L = set (slice ?a ?b ?clu) \<inter> set gen"
    unfolding set_chunk_clusters chunk_keys ..
  have dist: "distinct ?L"
    by (simp add: chunk_clusters_def)
  have each: "\<forall>c\<in>set ?L. \<forall>d0.
      store_cluster it c [?a..<?b] ?spc (slice ?a ?b (features_masks m)) d0 =
        Inr (disk_store (disk_store d0 c ''features'' (?F c) True) c ''masks'' (?M c) True)"
  proof (intro ballI allI)
    fix c d0 assume "c \<in> set ?L"
    then have "c \<in> set (slice ?a ?b ?clu)" using L by blast
    then show "store_cluster it c [?a..<?b] ?spc (slice ?a ?b (features_masks m)) d0 =
        Inr (disk_store (disk_store d0 c ''features'' (?F c) True) c ''masks'' (?M c) True)"
      using init wf by (intro store_cluster_chunk) simp_all
  qed
  have "set (slice ?a ?b ?clu) = {c. ?S c \<noteq> []}"
    by (auto simp: cluster_spikes_nonempty slice_map_nth len)
  then have mem: "\<And>c. c \<in> set ?L \<longleftrightarrow> c \<in> set gen \<and> ?S c \<noteq> []"
    using L by blast
  have "store_clusters it ?L [?a..<?b] ?spc (slice ?a ?b (features_masks m)) d =
           Inr (\<lambda>(c, name).
             if c \<in> set ?L \<and> (name = ''features'' \<or> name = ''masks'')
             then Some ((case d (c, name) of None \<Rightarrow> [] | Some old \<Rightarrow> old) @
                        (if name = ''features'' then ?F c else ?M c))
             else d (c, name))"
    using dist each by (rule store_clusters_effect)
  moreover have "(\<lambda>(c, name).
             if c \<in> set ?L \<and> (name = ''features'' \<or> name = ''masks'')
             then Some ((case d (c, name) of None \<Rightarrow> [] | Some old \<Rightarrow> old) @
                        (if name = ''features'' then ?F c else ?M c))
             else d (c, name))
        = generated m gen ?a (min ?b ?n) d"
    unfolding generated_def mem by (auto simp: fun_eq_iff)
  ultimately show ?thesis
    unfolding store_chunk_def Let_def it by simp
qed

lemma cluster_spikes_append:
  "lo \<le> mid \<Longrightarrow> mid \<le> hi \<Longrightarrow>
   cluster_spikes clu c lo hi = cluster_spikes clu c lo mid @ cluster_spikes clu c mid hi"
proof -
  assume "lo \<le> mid" "mid \<le> hi"
  then have "[lo..<hi] = [lo..<mid] @ [mid..<hi]"
    using upt_add_eq_append [of lo mid "hi - mid"] by simp
  then show ?thesis
    by (simp add: cluster_spikes_def)
qed

lemma generated_compose:
  assumes "lo \<le> mid" and "mid \<le> hi"
  shows "generated m gen mid hi (generated m gen lo mid d) = generated m gen lo hi d"
proof (rule ext)
  fix key :: "nat \<times> string"
  obtain c name where key: "key = (c, name)" by (cases key)
  let ?S1 = "cluster_spikes (spike_clusters m) c lo mid"
  let ?S2 = "cluster_spikes (spike_clusters m) c mid hi"
  have S: "cluster_spikes (spike_clusters m) c lo hi = ?S1 @ ?S2"
    using assms by (rule cluster_spikes_append)
  show "generated m gen mid hi (generated m gen lo mid d) key = generated m gen lo hi d key"
    by (cases "?S1 = []"; cases "?S2 = []") (auto simp: key generated_def S)
qed

lemma generated_empty: "hi \<le> lo \<Longrightarrow> generated m gen lo hi d = d"
  by (auto simp: generated_def cluster_spikes_def fun_eq_iff)


lemma empty_chunk_iff:
  "0 < cs \<Longrightarrow> length (slice (i * cs) ((i + 1) * cs) xs) = 0 \<longleftrightarrow> length xs \<le> i * cs"
  by (auto simp: slice_def)

lemma store_chunks_effect:
  assumes init: "init_feature_masks m ids cs = Inr it"
    and wf: "well_formed m"
  shows "i \<le> K \<Longrightarrow>
         store_chunks it gen [i..<K] d =
           Inr (generated m gen (min (i * cs) (model_n_spikes m))
                  (min (K * cs) (model_n_spikes m)) d)"
proof (induction "K - i" arbitrary: i d)
  case 0
  then have "i = K" by simp
  then show ?case by (simp add: generated_empty)
next
  case (Suc k)
  let ?n = "model_n_spikes m"
  have cs: "0 < cs" and it: "chunk_size it = cs" "model it = m"
    using init_fields [OF init] by auto
  have len: "length (features_masks m) = ?n"
    using wf by (simp add: well_formed_def)
  from Suc.hyps(2) have iK: "i < K" by simp
  then have list: "[i..<K] = i # [Suc i..<K]" by (simp add: upt_conv_Cons)
  have mono: "i * cs \<le> K * cs" "Suc i * cs \<le> K * cs"
    using iK by (simp_all add: mult_le_mono1 del: mult_Suc)
  show ?case
  proof (cases "?n \<le> i * cs")
    case True
    then have "length (slice (i * chunk_size it) ((i + 1) * chunk_size it)
        (features_masks (model it))) = 0"
      using empty_chunk_iff [OF cs, of i "features_masks m"] it len by simp
    moreover have "generated m gen (min (i * cs) ?n) (min (K * cs) ?n) d = d"
      using True mono by (intro generated_empty) simp
    ultimately show ?thesis
      unfolding list by simp
  next
    case False
    then have ne: "length (slice (i * chunk_size it) ((i + 1) * chunk_size it)
        (features_masks (model it))) \<noteq> 0"
      using empty_chunk_iff [OF cs, of i "features_masks m"] it len by simp
    let ?d1 = "generated m gen (i * cs) (min ((i + 1) * cs) ?n) d"
    have step: "store_chunk it gen i d = Inr ?d1"
      using init wf by (rule store_chunk_effect)
    have "k = K - Suc i" "Suc i \<le> K"
      using Suc.hyps(2) by simp_all
    then have ih: "store_chunks it gen [Suc i..<K] ?d1 =
        Inr (generated m gen (min (Suc i * cs) ?n) (min (K * cs) ?n) ?d1)"
      by (rule Suc.hyps(1))
    have lo: "min (i * cs) ?n = i * cs"
      using False by simp
    have mid1: "i * cs \<le> min ((i + 1) * cs) ?n"
      using False by simp
    have "min (Suc i * cs) ?n \<le> min (K * cs) ?n"
      using mono(2) by (rule min.mono) simp
    then have mid2: "min ((i + 1) * cs) ?n \<le> min (K * cs) ?n"
      by simp
    have "generated m gen (min ((i + 1) * cs) ?n) (min (K * cs) ?n) ?d1
        = generated m gen (i * cs) (min (K * cs) ?n) d"
      using mid1 mid2 by (rule generated_compose)
    then show ?thesis
      unfolding list lo using ne step ih by simp
  qed
qed

lemma chunks_cover: "0 < cs \<Longrightarrow> min ((n div cs + 1) * cs) n = (n::nat)"
proof -
  assume "0 < cs"
  then have "n < (n div cs + 1) * cs"
    using dividend_less_times_div [of cs n] by (simp add: mult.commute)
  then show ?thesis by simp
qed

lemma store_all_chunks:
  assumes init: "init_feature_masks m ids cs = Inr it"
    and wf: "well_formed m"
  shows "store_chunks it gen [0..<n_chunks it] d =
           Inr (generated m gen 0 (model_n_spikes m) d)"
proof -
  have cs: "0 < cs" and nch: "n_chunks it = model_n_spikes m div cs + 1"
    using init_fields [OF init] by auto
  have "store_chunks it gen [0..<n_chunks it] d =
      Inr (generated m gen (min (0 * cs) (model_n_spikes m))
             (min (n_chunks it * cs) (model_n_spikes m)) d)"
    using init wf by (rule store_chunks_effect) simp
  moreover have "min (n_chunks it * cs) (model_n_spikes m) = model_n_spikes m"
    unfolding nch using cs by (rule chunks_cover)
  ultimately show ?thesis
    by (simp del: upt_Suc)
qed


lemma store_extra_fields_cluster_cong:
  assumes "n_channels it1 = n_channels it2" and "model it1 = model it2"
  shows "store_extra_fields_cluster it1 c st = store_extra_fields_cluster it2 c st"
  unfolding store_extra_fields_cluster_def assms ..

lemma store_extra_fields_cong:
  assumes "n_channels it1 = n_channels it2" and "model it1 = model it2"
  shows "store_extra_fields it1 cs st = store_extra_fields it2 cs st"
proof (induction cs arbitrary: st)
  case Nil
  show ?case by simp
next
  case (Cons c cs)
  show ?case
    using Cons.IH store_extra_fields_cluster_cong [OF assms, of c st]
    by (simp split: sum.splits)
qed

lemma generated_nothing: "generated m [] lo hi d = d"
  by (simp add: generated_def fun_eq_iff)

lemma store_all_clusters_generated:
  assumes init: "init_feature_masks m ids cs = Inr it"
    and wf: "well_formed m"
  shows "store_all_clusters it gen st =
           store_extra_fields it ids (st\<lparr>disk := generated m gen 0 (model_n_spikes m) (disk st)\<rparr>)"
proof -
  have it: "model it = m" "n_spikes it = model_n_spikes m" "cluster_ids it = ids"
    using init_fields [OF init] by auto
  have len: "length (features_masks m) = model_n_spikes m"
    using wf by (simp add: well_formed_def)
  show ?thesis
  proof (cases "gen = []")
    case True
    then show ?thesis
      by (simp add: store_all_clusters_def it generated_nothing)
  next
    case False
    then show ?thesis
      unfolding store_all_clusters_def Let_def it
      using store_all_chunks [OF init wf, of gen "disk st"] len by simp
  qed
qed

lemma init_succeeds:
  "0 < cs \<Longrightarrow> \<exists>it. init_feature_masks m ids cs = Inr it"
  by (simp add: init_feature_masks_def)

text \<open>
  C5. For a well-formed model and any two positive chunk sizes, the two items can be
  constructed, and from the same store the chunk loops of both succeed and leave the same
  disk: the files of every cluster to generate that has records are extended by the rows
  of all its records in ascending order of record index, whatever the chunk size. The two
  \<^verbatim>\<open>store_all_clusters\<close> calls have the same outcome, and when they return the disk is
  that one.
\<close>

theorem chunk_size_independent:
  assumes "0 < cs1" and "0 < cs2" and "well_formed m"
  shows "\<exists>it1 it2.
           init_feature_masks m ids cs1 = Inr it1 \<and>
           init_feature_masks m ids cs2 = Inr it2 \<and>
           store_chunks it1 gen [0..<n_chunks it1] (disk st)
             = Inr (generated m gen 0 (model_n_spikes m) (disk st)) \<and>
           store_chunks it2 gen [0..<n_chunks it2] (disk st)
             = Inr (generated m gen 0 (model_n_spikes m) (disk st)) \<and>
           store_all_clusters it1 gen st = store_all_clusters it2 gen st \<and>
           (\<forall>st'. store_all_clusters it1 gen st = Inr st' \<longrightarrow>
              disk st' = generated m gen 0 (model_n_spikes m) (disk st)) \<and>
           (\<forall>c. sorted (cluster_spikes (spike_clusters m) c 0 (model_n_spikes m)) \<and>
                distinct (cluster_spikes (spike_clusters m) c 0 (model_n_spikes m)) \<and>
                set (cluster_spikes (spike_clusters m) c 0 (model_n_spikes m))
                  = {s. s < model_n_spikes m \<and> spike_clusters m ! s = c})"
proof -
  obtain it1 it2 where i1: "init_feature_masks m ids cs1 = Inr it1"
    and i2: "init_feature_masks m ids cs2 = Inr it2"
    using assms(1,2) init_succeeds by blast
  let ?D = "generated m gen 0 (model_n_spikes m) (disk st)"
  have c1: "store_chunks it1 gen [0..<n_chunks it1] (disk st) = Inr ?D"
    using i1 assms(3) by (rule store_all_chunks)
  have c2: "store_chunks it2 gen [0..<n_chunks it2] (disk st) = Inr ?D"
    using i2 assms(3) by (rule store_all_chunks)
  have a1: "store_all_clusters it1 gen st = store_extra_fields it1 ids (st\<lparr>disk := ?D\<rparr>)"
    using i1 assms(3) by (rule store_all_clusters_generated)
  have a2: "store_all_clusters it2 gen st = store_extra_fields it2 ids (st\<lparr>disk := ?D\<rparr>)"
    using i2 assms(3) by (rule store_all_clusters_generated)
  have "n_channels it1 = n_channels it2" "model it1 = model it2"
    using init_fields [OF i1] init_fields [OF i2] by auto
  then have eq: "store_all_clusters it1 gen st = store_all_clusters it2 gen st"
    unfolding a1 a2 by (rule store_extra_fields_cong)
  have dk: "\<forall>st'. store_all_clusters it1 gen st = Inr st' \<longrightarrow> disk st' = ?D"
    unfolding a1 by (auto dest: store_extra_fields_disk)
  have ord: "\<forall>c. sorted (cluster_spikes (spike_clusters m) c 0 (model_n_spikes m)) \<and>
                distinct (cluster_spikes (spike_clusters m) c 0 (model_n_spikes m)) \<and>
                set (cluster_spikes (spike_clusters m) c 0 (model_n_spikes m))
                  = {s. s < model_n_spikes m \<and> spike_clusters m ! s = c}"
    by (auto simp: cluster_spikes_def sorted_filter [where f = "\<lambda>x. x", simplified])
  from i1 i2 c1 c2 eq dk ord show ?thesis by blast
qed


lemma upt_5: "[0..<5] = [0, 1, 2, 3, 4]"
  by (simp add: upt_rec numeral_nat)

lemma example_well_formed:
  "well_formed
     \<lparr>n_features_per_channel = 2, channel_order = [0], model_n_spikes = 5,
      features_masks =
        [ [(Fin 0, Fin 1), (Fin 1, Fin 1)], [(Fin 10, Fin 0), (Fin 11, Fin 0)],
         [(Fin 20, Fin 1), (Fin 21, Fin 1)], [(Fin 30, Fin 1), (Fin 31, Fin 1)],
         [(Fin 40, Fin 0), (Fin 41, Fin 0)] ],
      spike_clusters = [7, 3, 7, 7, 3], probe_positions = [ [Fin 0] ], probe_n_dims = 1\<rparr>"
  by (simp add: well_formed_def)

lemma example_field_row:
  "field_row
     \<lparr>n_features_per_channel = 2, channel_order = [0], model_n_spikes = 5,
      features_masks = fm, spike_clusters = clu, probe_positions = pos, probe_n_dims = nd\<rparr>
     name s
   = (if name = ''features'' then map fst (take 2 (fm ! s))
      else every_nth 2 (map snd (take 2 (fm ! s))))"
  by (simp add: field_row_def)

lemma every_nth_2: "every_nth 2 [x, y] = [x]"
  by (simp add: every_nth_def)

lemma example_spikes:
  "cluster_spikes [7, 3, 7, 7, 3] 7 0 5 = [0, 2, 3]"
  "cluster_spikes [7, 3, 7, 7, 3] 3 0 5 = [1, 4]"
  by (simp_all add: cluster_spikes_def upt_5)

theorem chunk_size_independent_witness:
  "(case init_feature_masks
      \<lparr>n_features_per_channel = 2, channel_order = [0], model_n_spikes = 5,
       features_masks =
        [ [(Fin 0, Fin 1), (Fin 1, Fin 1)], [(Fin 10, Fin 0), (Fin 11, Fin 0)],
         [(Fin 20, Fin 1), (Fin 21, Fin 1)], [(Fin 30, Fin 1), (Fin 31, Fin 1)],
         [(Fin 40, Fin 0), (Fin 41, Fin 0)] ],
       spike_clusters = [7, 3, 7, 7, 3], probe_positions = [ [Fin 0] ], probe_n_dims = 1\<rparr>
      [3, 7] 2 of
      Inl e \<Rightarrow> None
    | Inr it \<Rightarrow>
       (case store_chunks it [3, 7] [0..<n_chunks it] Map.empty of
          Inl e \<Rightarrow> None
        | Inr d \<Rightarrow> Some (d (7, ''features''), d (7, ''masks''), d (3, ''features''))))
   = Some (Some [Fin 0, Fin 1, Fin 20, Fin 21, Fin 30, Fin 31], Some [Fin 1, Fin 1, Fin 1],
           Some [Fin 10, Fin 11, Fin 40, Fin 41])
   \<and>
   (case init_feature_masks
      \<lparr>n_features_per_channel = 2, channel_order = [0], model_n_spikes = 5,
       features_masks =
        [ [(Fin 0, Fin 1), (Fin 1, Fin 1)], [(Fin 10, Fin 0), (Fin 11, Fin 0)],
         [(Fin 20, Fin 1), (Fin 21, Fin 1)], [(Fin 30, Fin 1), (Fin 31, Fin 1)],
         [(Fin 40, Fin 0), (Fin 41, Fin 0)] ],
       spike_clusters = [7, 3, 7, 7, 3], probe_positions = [ [Fin 0] ], probe_n_dims = 1\<rparr>
      [3, 7] 5 of
      Inl e \<Rightarrow> None
    | Inr it \<Rightarrow>
       (case store_chunks it [3, 7] [0..<n_chunks it] Map.empty of
          Inl e \<Rightarrow> None
        | Inr d \<Rightarrow> Some (d (7, ''features''), d (7, ''masks''), d (3, ''features''))))
   = Some (Some [Fin 0, Fin 1, Fin 20, Fin 21, Fin 30, Fin 31], Some [Fin 1, Fin 1, Fin 1],
           Some [Fin 10, Fin 11, Fin 40, Fin 41])"
proof -
  let ?m = "\<lparr>n_features_per_channel = 2, channel_order = [0], model_n_spikes = 5,
       features_masks =
        [ [(Fin 0, Fin 1), (Fin 1, Fin 1)], [(Fin 10, Fin 0), (Fin 11, Fin 0)],
         [(Fin 20, Fin 1), (Fin 21, Fin 1)], [(Fin 30, Fin 1), (Fin 31, Fin 1)],
         [(Fin 40, Fin 0), (Fin 41, Fin 0)] ],
       spike_clusters = [7, 3, 7, 7, 3], probe_positions = [ [Fin 0] ], probe_n_dims = 1\<rparr>"
  let ?st = "\<lparr>disk = Map.empty, disk_int = Map.empty, memory = \<lambda>c. empty_entry\<rparr>"
  obtain it1 it2 where
    i1: "init_feature_masks ?m [3, 7] 2 = Inr it1" and
    i2: "init_feature_masks ?m [3, 7] 5 = Inr it2" and
    c1: "store_chunks it1 [3, 7] [0..<n_chunks it1] (disk ?st)
           = Inr (generated ?m [3, 7] 0 (model_n_spikes ?m) (disk ?st))" and
    c2: "store_chunks it2 [3, 7] [0..<n_chunks it2] (disk ?st)
           = Inr (generated ?m [3, 7] 0 (model_n_spikes ?m) (disk ?st))"
    using chunk_size_independent [of 2 5 ?m "[3, 7]" "[3, 7]" ?st] example_well_formed
    by auto
  have g: "generated ?m [3, 7] 0 5 Map.empty (7, ''features'')
             = Some [Fin 0, Fin 1, Fin 20, Fin 21, Fin 30, Fin 31]"
    "generated ?m [3, 7] 0 5 Map.empty (7, ''masks'') = Some [Fin 1, Fin 1, Fin 1]"
    "generated ?m [3, 7] 0 5 Map.empty (3, ''features'')
             = Some [Fin 10, Fin 11, Fin 40, Fin 41]"
    by (simp_all add: generated_def example_spikes example_field_row every_nth_2)
  show ?thesis
    using c1 c2 g unfolding i1 i2 by simp
qed



text \<open>
  C7. In the chunk with index \<open>i\<close> of a well-formed model, the list \<open>L\<close> of clusters that
  the loop \<^verbatim>\<open>for cluster in sorted(clusters)\<close> goes through holds exactly the clusters
  that have a record in the chunk and are to be generated, in ascending order and each
  once. Processing the chunk is \<^verbatim>\<open>_store_cluster\<close> for these clusters in this order; it
  succeeds, extends both files of each cluster of \<open>L\<close> by the rows of the cluster's records
  in the chunk, and leaves the files of all other clusters as they were.
\<close>

theorem chunk_clusters_processed:
  assumes "init_feature_masks m ids cs = Inr it" and "well_formed m"
    and "a = i * cs" and "b = (i + 1) * cs"
    and "L = chunk_clusters (spikes_per_cluster [a..<b] (slice a b (spike_clusters m))) gen"
  shows "set L = set (slice a b (spike_clusters m)) \<inter> set gen \<and> sorted L \<and> distinct L \<and>
         store_chunk it gen i d =
           store_clusters it L [a..<b]
             (spikes_per_cluster [a..<b] (slice a b (spike_clusters m)))
             (slice a b (features_masks m)) d \<and>
         (\<exists>d'. store_chunk it gen i d = Inr d' \<and>
            (\<forall>c name. c \<notin> set L \<longrightarrow> d' (c, name) = d (c, name)) \<and>
            (\<forall>c\<in>set L. \<forall>name\<in>{''features'', ''masks''}.
               d' (c, name) =
                 Some ((case d (c, name) of None \<Rightarrow> [] | Some old \<Rightarrow> old) @
                   concat (map (field_row m name)
                     (cluster_spikes (spike_clusters m) c a (min b (model_n_spikes m)))))))"
proof -
  let ?n = "model_n_spikes m"
  have it: "chunk_size it = cs" "model it = m"
    using init_fields [OF assms(1)] by auto
  have len: "length (spike_clusters m) = ?n"
    using assms(2) by (simp add: well_formed_def)
  have L: "set L = set (slice a b (spike_clusters m)) \<inter> set gen"
    unfolding assms(5) set_chunk_clusters chunk_keys ..
  have so: "sorted L" "distinct L"
    unfolding assms(5) by (simp_all add: chunk_clusters_def)
  have df: "store_chunk it gen i d =
           store_clusters it L [a..<b]
             (spikes_per_cluster [a..<b] (slice a b (spike_clusters m)))
             (slice a b (features_masks m)) d"
    unfolding assms(3,4,5) by (simp add: store_chunk_def it Let_def)
  have "set (slice a b (spike_clusters m))
      = {c. cluster_spikes (spike_clusters m) c a (min b ?n) \<noteq> []}"
    by (auto simp: cluster_spikes_nonempty slice_map_nth len)
  then have mem: "\<And>c. c \<in> set L \<longleftrightarrow>
      c \<in> set gen \<and> cluster_spikes (spike_clusters m) c a (min b ?n) \<noteq> []"
    using L by blast
  have ef: "store_chunk it gen i d = Inr (generated m gen a (min b ?n) d)"
    unfolding assms(3,4) using assms(1,2) by (rule store_chunk_effect)
  have "\<forall>c name. c \<notin> set L \<longrightarrow> generated m gen a (min b ?n) d (c, name) = d (c, name)"
    by (auto simp: generated_def mem)
  moreover have "\<forall>c\<in>set L. \<forall>name\<in>{''features'', ''masks''}.
      generated m gen a (min b ?n) d (c, name) =
        Some ((case d (c, name) of None \<Rightarrow> [] | Some old \<Rightarrow> old) @
          concat (map (field_row m name) (cluster_spikes (spike_clusters m) c a (min b ?n))))"
    by (simp add: generated_def mem)
  ultimately show ?thesis
    using L so df ef by blast
qed

lemma example_chunk:
  "chunk_clusters (spikes_per_cluster [0..<2] (slice 0 2 [7, 3, 7, 7, 3])) [7, 3] = [3, 7]"
proof -
  have "sorted_list_of_set ({7, 3} \<inter> {7, 3}) = [3, 7::nat]"
    by code_simp
  then show ?thesis
    by (simp add: chunk_clusters_def spikes_per_cluster_def slice_def upt_rec numeral_nat)
qed

theorem chunk_clusters_processed_witness:
  "chunk_clusters (spikes_per_cluster [0..<2] (slice 0 2 [7, 3, 7, 7, 3])) [7, 3] = [3, 7]
   \<and> (case store_chunk
        \<lparr>chunk_size = 2,
         model = \<lparr>n_features_per_channel = 2, channel_order = [0], model_n_spikes = 5,
           features_masks =
            [ [(Fin 0, Fin 1), (Fin 1, Fin 1)], [(Fin 10, Fin 0), (Fin 11, Fin 0)],
             [(Fin 20, Fin 1), (Fin 21, Fin 1)], [(Fin 30, Fin 1), (Fin 31, Fin 1)],
             [(Fin 40, Fin 0), (Fin 41, Fin 0)] ],
           spike_clusters = [7, 3, 7, 7, 3], probe_positions = [ [Fin 0] ], probe_n_dims = 1\<rparr>,
         cluster_ids = [3, 7], n_features = 2, n_channels = 1, n_spikes = 5, n_chunks = 3\<rparr>
        [7, 3] 0 Map.empty of
        Inl e \<Rightarrow> None
      | Inr d \<Rightarrow> Some (d (3, ''features''), d (7, ''features''), d (7, ''masks''),
                       d (5, ''features'')))
     = Some (Some [Fin 10, Fin 11], Some [Fin 0, Fin 1], Some [Fin 1], None)"
proof -
  let ?m = "\<lparr>n_features_per_channel = 2, channel_order = [0], model_n_spikes = 5,
           features_masks =
            [ [(Fin 0, Fin 1), (Fin 1, Fin 1)], [(Fin 10, Fin 0), (Fin 11, Fin 0)],
             [(Fin 20, Fin 1), (Fin 21, Fin 1)], [(Fin 30, Fin 1), (Fin 31, Fin 1)],
             [(Fin 40, Fin 0), (Fin 41, Fin 0)] ],
           spike_clusters = [7, 3, 7, 7, 3], probe_positions = [ [Fin 0] ], probe_n_dims = 1\<rparr>"
  let ?it = "\<lparr>chunk_size = 2, model = ?m, cluster_ids = [3, 7], n_features = 2,
         n_channels = 1, n_spikes = 5, n_chunks = 3\<rparr>"
  have i: "init_feature_masks ?m [3, 7] 2 = Inr ?it"
    by (simp add: init_feature_masks_def)
  have L: "[3, 7] = chunk_clusters
      (spikes_per_cluster [0..<2] (slice 0 2 (spike_clusters ?m))) [7, 3]"
    using example_chunk by simp
  have s: "cluster_spikes [7, 3, 7, 7, 3] 3 0 2 = [1]" "cluster_spikes [7, 3, 7, 7, 3] 7 0 2 = [0]"
    by (simp_all add: cluster_spikes_def upt_rec numeral_nat)
  have a0: "(0::nat) = 0 * 2" and b0: "(2::nat) = (0 + 1) * 2"
    by simp_all
  obtain d' where d': "store_chunk ?it [7, 3] 0 Map.empty = Inr d'"
    and frame: "\<forall>c name. c \<notin> set [3, 7] \<longrightarrow> d' (c, name) = Map.empty (c, name)"
    and written: "\<forall>c\<in>set [3, 7]. \<forall>name\<in>{''features'', ''masks''}.
               d' (c, name) =
                 Some ((case Map.empty (c, name) of None \<Rightarrow> [] | Some old \<Rightarrow> old) @
                   concat (map (field_row ?m name)
                     (cluster_spikes (spike_clusters ?m) c 0 (min 2 (model_n_spikes ?m)))))"
    using chunk_clusters_processed [OF i example_well_formed a0 b0 L, of Map.empty]
    by blast
  have "d' (3, ''features'') = Some [Fin 10, Fin 11]" "d' (7, ''features'') = Some [Fin 0, Fin 1]"
    "d' (7, ''masks'') = Some [Fin 1]" "d' (5, ''features'') = None"
    using frame written by (simp_all add: s example_field_row every_nth_2)
  then show ?thesis
    using example_chunk d' by simp
qed

end
